theory Spec2Isabelle
  imports Complex_Main "HOL-Library.Log_Nat" "HOL-Library.Char_ord" "HOL-Library.Monad_Syntax"
begin

section \<open>YOLO label validator: \<^verbatim>\<open>validate_yolo_labels.py\<close>\<close>

text \<open>
  The development embeds the three layers of \<^verbatim>\<open>validate_yolo_labels.py\<close>:
  \<^verbatim>\<open>validate_yolo_line\<close> (one annotation line), \<^verbatim>\<open>validate_label_file\<close> (one file) and
  \<^verbatim>\<open>scan_dataset\<close> / \<^verbatim>\<open>main\<close> (the two partitions and the exit code), together with the
  Python built-ins they call: \<^verbatim>\<open>str.strip\<close>, \<^verbatim>\<open>str.split\<close>, \<^verbatim>\<open>int\<close>, \<^verbatim>\<open>float\<close>, the
  binary64 operations \<^verbatim>\<open>/\<close>, \<^verbatim>\<open>-\<close>, \<^verbatim>\<open>+\<close> and the comparisons, and the string conversions of
  the f-strings.

  A Python \<^verbatim>\<open>str\<close> is modelled as a \<^typ>\<open>string\<close>: a list of 8-bit characters, read as the
  code points 0 to 255 (ASCII and Latin-1). Python's \<^verbatim>\<open>int\<close> is \<^typ>\<open>int\<close>.
\<close>

subsection \<open>Text: \<^verbatim>\<open>str.isspace\<close>, \<^verbatim>\<open>str.strip\<close>, \<^verbatim>\<open>str.split\<close>\<close>

text \<open>
  \<^verbatim>\<open>str.isspace\<close> on one character. Below code point 256 the whitespace characters are
  \<^verbatim>\<open>\t \n \v \f \r\<close> (9 to 13), the separators 28 to 31, the space 32, NEL 133 and the
  no-break space 160.
\<close>

definition isspace :: "char \<Rightarrow> bool" where
  "isspace c \<longleftrightarrow>
     (let n = (of_char c :: nat)
      in (9 \<le> n \<and> n \<le> 13) \<or> (28 \<le> n \<and> n \<le> 32) \<or> n = 133 \<or> n = 160)"

definition lstrip :: "string \<Rightarrow> string" where
  "lstrip s = dropWhile isspace s"

definition rstrip :: "string \<Rightarrow> string" where
  "rstrip s = rev (dropWhile isspace (rev s))"

text \<open>\<^verbatim>\<open>s.strip()\<close>: leading and trailing whitespace removed.\<close>

definition strip :: "string \<Rightarrow> string" where
  "strip s = rstrip (lstrip s)"

text \<open>
  \<^verbatim>\<open>s.split()\<close> with no separator: the maximal runs of non-whitespace characters, in
  order. \<open>split_from s cur\<close> scans \<open>s\<close> with the current run \<open>cur\<close> held reversed.
\<close>

fun split_from :: "string \<Rightarrow> string \<Rightarrow> string list" where
  "split_from [] cur = (if cur = [] then [] else [rev cur])"
| "split_from (c # cs) cur =
     (if isspace c
      then (if cur = [] then split_from cs [] else rev cur # split_from cs [])
      else split_from cs (c # cur))"

definition py_split :: "string \<Rightarrow> string list" where
  "py_split s = split_from s []"

subsection \<open>Integers: \<^verbatim>\<open>int(s)\<close> and \<^verbatim>\<open>str(n)\<close>\<close>

definition is_digit :: "char \<Rightarrow> bool" where
  "is_digit c \<longleftrightarrow> CHR ''0'' \<le> c \<and> c \<le> CHR ''9''"

definition digit_val :: "char \<Rightarrow> int" where
  "digit_val c = of_char c - 48"

text \<open>
  A run of decimal digits in which single underscores may separate digits (PEP 515):
  the digits without the underscores, or \<open>None\<close> when the text is not of that form.
\<close>

fun digitpart :: "string \<Rightarrow> string option" where
  "digitpart [] = None"
| "digitpart [c] = (if is_digit c then Some [c] else None)"
| "digitpart (c # d # cs) =
     (if is_digit c
      then (if d = CHR ''_'' then map_option (Cons c) (digitpart cs)
            else map_option (Cons c) (digitpart (d # cs)))
      else None)"

text \<open>The number a string of decimal digits denotes.\<close>

definition int_of_digits :: "string \<Rightarrow> int" where
  "int_of_digits ds = foldl (\<lambda>n c. 10 * n + digit_val c) 0 ds"

text \<open>An optional sign in front of the rest of a numeric literal.\<close>

fun take_sign :: "string \<Rightarrow> bool \<times> string" where
  "take_sign (c # cs) =
     (if c = CHR ''-'' then (True, cs) else if c = CHR ''+'' then (False, cs) else (False, c # cs))"
| "take_sign [] = (False, [])"

text \<open>
  The whitespace that \<^verbatim>\<open>int(s)\<close> and \<^verbatim>\<open>float(s)\<close> ignore around a literal: of the code
  points below 256 these are 9 to 13, the space 32, NEL 133 and the no-break space 160.
  Unlike \<^verbatim>\<open>str.strip\<close> they do not skip the separators 28 to 31.
\<close>

definition num_space :: "char \<Rightarrow> bool" where
  "num_space c \<longleftrightarrow>
     (let n = (of_char c :: nat)
      in (9 \<le> n \<and> n \<le> 13) \<or> n = 32 \<or> n = 133 \<or> n = 160)"

definition num_strip :: "string \<Rightarrow> string" where
  "num_strip s = rev (dropWhile num_space (rev (dropWhile num_space s)))"

text \<open>
  The limit of CPython on the number of digits of a decimal integer literal
  (\<^verbatim>\<open>sys.int_info.default_max_str_digits\<close>, in force since CPython 3.11 and in the security
  releases of the versions before it). Leading zeros count, underscores and the sign do not.
\<close>

definition max_str_digits :: nat where
  "max_str_digits = 4300"

text \<open>
  \<^verbatim>\<open>int(s)\<close> in base 10: surrounding whitespace is ignored, then an optional sign and a
  digit run of at most \<open>max_str_digits\<close> digits. \<open>None\<close> stands for the \<^verbatim>\<open>ValueError\<close>,
  which also a digit run over the limit raises.
\<close>

definition py_int :: "string \<Rightarrow> int option" where
  "py_int s =
     (let (neg, body) = take_sign (num_strip s)
      in case digitpart body of
           None \<Rightarrow> None
         | Some ds \<Rightarrow>
             if max_str_digits < length ds then None
             else Some (if neg then - int_of_digits ds else int_of_digits ds))"

definition digit_char :: "nat \<Rightarrow> char" where
  "digit_char d = char_of (48 + d)"

fun str_nat :: "nat \<Rightarrow> string" where
  "str_nat n = (if n < 10 then [digit_char n] else str_nat (n div 10) @ [digit_char (n mod 10)])"

declare str_nat.simps [simp del]

text \<open>
  \<^verbatim>\<open>str(n)\<close> of an integer, as an f-string field \<^verbatim>\<open>{n}\<close> renders it. The integers printed
  here are list lengths and results of \<open>py_int\<close>, so they stay within the digit limit.
\<close>

definition str_int :: "int \<Rightarrow> string" where
  "str_int i = (if i < 0 then CHR ''-'' # str_nat (nat (- i)) else str_nat (nat i))"

subsection \<open>Floats: binary64 values, rounding, arithmetic and comparisons\<close>

text \<open>
  A Python \<^verbatim>\<open>float\<close> is an IEEE 754 binary64 value: \<open>Finite s m\<close> is the finite value of
  sign bit \<open>s\<close> (\<open>True\<close> = negative) and magnitude \<open>m \<ge> 0\<close> (so both zeros exist),
  \<open>Infinity s\<close> the infinity of sign \<open>s\<close>, and \<open>NaN\<close> not-a-number.
\<close>

datatype pyfloat = Finite bool rat | Infinity bool | NaN

definition fval :: "bool \<Rightarrow> rat \<Rightarrow> rat" where
  "fval s m = (if s then - m else m)"

text \<open>Rounding a rational to the nearest integer, ties to the even one.\<close>

definition round_half_even :: "rat \<Rightarrow> int" where
  "round_half_even q =
     (let f = \<lfloor>q\<rfloor>; r = q - of_int f
      in if r < 1 / 2 then f else if 1 / 2 < r then f + 1 else if even f then f else f + 1)"

text \<open>\<open>ilog2 a\<close> is \<open>\<lfloor>log\<^sub>2 a\<rfloor>\<close> for a rational \<open>a > 0\<close>.\<close>

definition ilog2 :: "rat \<Rightarrow> int" where
  "ilog2 a =
     (let (p, q) = quotient_of a; d = bitlen p - bitlen q
      in if 2 powi d \<le> a then d else d - 1)"

text \<open>
  The exponent of the unit in the last place of the binary64 grid around \<open>a > 0\<close>:
  53 significant bits for normal numbers, the fixed spacing \<open>2\<^sup>-\<^sup>1\<^sup>0\<^sup>7\<^sup>4\<close> for subnormal ones.
\<close>

definition quantum :: "rat \<Rightarrow> int" where
  "quantum a = max (ilog2 a - 52) (- 1074)"

text \<open>
  Round-to-nearest, ties-to-even, of the magnitude \<open>a \<ge> 0\<close> with sign \<open>s\<close>; a result of
  \<open>2\<^sup>1\<^sup>0\<^sup>2\<^sup>4\<close> or more overflows to the infinity.
\<close>

definition round_double :: "bool \<Rightarrow> rat \<Rightarrow> pyfloat" where
  "round_double s a =
     (if a = 0 then Finite s 0
      else let e = quantum a; m = of_int (round_half_even (a / 2 powi e)) * 2 powi e
           in if 2 powi 1024 \<le> m then Infinity s else Finite s m)"

text \<open>The float of a rational: its sign and its rounded magnitude (zero is \<open>+0.0\<close>).\<close>

definition fl_of_rat :: "rat \<Rightarrow> pyfloat" where
  "fl_of_rat q = round_double (q < 0) \<bar>q\<bar>"

text \<open>An integer literal in a float operation: \<^verbatim>\<open>0\<close>, \<^verbatim>\<open>1\<close> and \<^verbatim>\<open>2\<close> convert exactly.\<close>

definition fl_int :: "int \<Rightarrow> pyfloat" where
  "fl_int i = fl_of_rat (of_int i)"

fun fl_neg :: "pyfloat \<Rightarrow> pyfloat" where
  "fl_neg (Finite s m) = Finite (\<not> s) m"
| "fl_neg (Infinity s) = Infinity (\<not> s)"
| "fl_neg NaN = NaN"

text \<open>
  \<^verbatim>\<open>x + y\<close>. An exact zero sum is \<open>-0.0\<close> only when both operands are negative (zeros),
  and \<open>+0.0\<close> otherwise.
\<close>

fun fl_add :: "pyfloat \<Rightarrow> pyfloat \<Rightarrow> pyfloat" where
  "fl_add (Finite s m) (Finite t n) =
     (let q = fval s m + fval t n
      in if q = 0 then Finite (s \<and> t) 0 else fl_of_rat q)"
| "fl_add (Finite s m) (Infinity t) = Infinity t"
| "fl_add (Infinity s) (Finite t n) = Infinity s"
| "fl_add (Infinity s) (Infinity t) = (if s = t then Infinity s else NaN)"
| "fl_add NaN y = NaN"
| "fl_add x NaN = NaN"

text \<open>\<^verbatim>\<open>x - y\<close>.\<close>

definition fl_sub :: "pyfloat \<Rightarrow> pyfloat \<Rightarrow> pyfloat" where
  "fl_sub x y = fl_add x (fl_neg y)"

text \<open>
  \<^verbatim>\<open>x / y\<close>. Python raises \<^verbatim>\<open>ZeroDivisionError\<close> when the divisor is a zero: that is the
  result \<open>None\<close>.
\<close>

fun fl_truediv :: "pyfloat \<Rightarrow> pyfloat \<Rightarrow> pyfloat option" where
  "fl_truediv x (Finite t n) =
     (if n = 0 then None
      else case x of
             Finite s m \<Rightarrow> Some (round_double (s \<noteq> t) (m / n))
           | Infinity s \<Rightarrow> Some (Infinity (s \<noteq> t))
           | NaN \<Rightarrow> Some NaN)"
| "fl_truediv (Finite s m) (Infinity t) = Some (Finite (s \<noteq> t) 0)"
| "fl_truediv (Infinity s) (Infinity t) = Some NaN"
| "fl_truediv NaN (Infinity t) = Some NaN"
| "fl_truediv x NaN = Some NaN"

text \<open>\<^verbatim>\<open>x < y\<close> and \<^verbatim>\<open>x <= y\<close>: false whenever an operand is NaN; the two zeros are equal.\<close>

fun fl_lt :: "pyfloat \<Rightarrow> pyfloat \<Rightarrow> bool" where
  "fl_lt (Finite s m) (Finite t n) = (fval s m < fval t n)"
| "fl_lt (Finite s m) (Infinity t) = (\<not> t)"
| "fl_lt (Infinity s) (Finite t n) = s"
| "fl_lt (Infinity s) (Infinity t) = (s \<and> \<not> t)"
| "fl_lt NaN y = False"
| "fl_lt x NaN = False"

fun fl_le :: "pyfloat \<Rightarrow> pyfloat \<Rightarrow> bool" where
  "fl_le (Finite s m) (Finite t n) = (fval s m \<le> fval t n)"
| "fl_le (Finite s m) (Infinity t) = (\<not> t)"
| "fl_le (Infinity s) (Finite t n) = s"
| "fl_le (Infinity s) (Infinity t) = (s \<or> \<not> t)"
| "fl_le NaN y = False"
| "fl_le x NaN = False"

text \<open>\<^verbatim>\<open>x > y\<close>.\<close>

definition fl_gt :: "pyfloat \<Rightarrow> pyfloat \<Rightarrow> bool" where
  "fl_gt x y = fl_lt y x"

text \<open>\<^verbatim>\<open>math.isnan\<close> and \<^verbatim>\<open>math.isinf\<close>.\<close>

fun isnan :: "pyfloat \<Rightarrow> bool" where
  "isnan NaN = True"
| "isnan x = False"

fun isinf :: "pyfloat \<Rightarrow> bool" where
  "isinf (Infinity s) = True"
| "isinf x = False"

subsection \<open>Floats: \<^verbatim>\<open>float(s)\<close>\<close>

definition ascii_lower :: "char \<Rightarrow> char" where
  "ascii_lower c = (if CHR ''A'' \<le> c \<and> c \<le> CHR ''Z'' then char_of (of_char c + (32::nat)) else c)"

definition is_exp_mark :: "char \<Rightarrow> bool" where
  "is_exp_mark c \<longleftrightarrow> c = CHR ''e'' \<or> c = CHR ''E''"

text \<open>A digit run that may be empty (either side of the decimal point).\<close>

definition opt_digitpart :: "string \<Rightarrow> string option" where
  "opt_digitpart s = (if s = [] then Some [] else digitpart s)"

text \<open>The exponent part after the mark: an optional sign and a digit run.\<close>

definition parse_exponent :: "string \<Rightarrow> int option" where
  "parse_exponent s =
     (let (neg, body) = take_sign s
      in case digitpart body of
           None \<Rightarrow> None
         | Some ds \<Rightarrow> Some (if neg then - int_of_digits ds else int_of_digits ds))"

text \<open>
  An unsigned decimal literal \<^verbatim>\<open>digits[.digits][e[+-]digits]\<close> or \<^verbatim>\<open>.digits[e[+-]digits]\<close>,
  as the exact rational it denotes.
\<close>

definition parse_decimal :: "string \<Rightarrow> rat option" where
  "parse_decimal s =
     (let mant = takeWhile (\<lambda>c. \<not> is_exp_mark c) s;
          rest = dropWhile (\<lambda>c. \<not> is_exp_mark c) s;
          ip = takeWhile (\<lambda>c. c \<noteq> CHR ''.'') mant;
          fp = drop 1 (dropWhile (\<lambda>c. c \<noteq> CHR ''.'') mant)
      in if ip = [] \<and> fp = [] then None
         else case (opt_digitpart ip, opt_digitpart fp,
                    if rest = [] then Some 0 else parse_exponent (drop 1 rest)) of
                (Some ipd, Some fpd, Some ex) \<Rightarrow>
                  Some (of_int (int_of_digits (ipd @ fpd)) * 10 powi (ex - int (length fpd)))
              | _ \<Rightarrow> None)"

text \<open>
  \<^verbatim>\<open>float(s)\<close>: surrounding whitespace is ignored; an optional sign; then \<^verbatim>\<open>inf\<close>,
  \<^verbatim>\<open>infinity\<close> or \<^verbatim>\<open>nan\<close> in any letter case, or a decimal literal, which is rounded
  correctly to binary64. \<open>None\<close> stands for the \<^verbatim>\<open>ValueError\<close>. There is no limit on
  the number of digits here.
\<close>

definition py_float :: "string \<Rightarrow> pyfloat option" where
  "py_float s =
     (let (neg, body) = take_sign (num_strip s); low = map ascii_lower body
      in if low = ''inf'' \<or> low = ''infinity'' then Some (Infinity neg)
         else if low = ''nan'' then Some NaN
         else case parse_decimal body of
                None \<Rightarrow> None
              | Some q \<Rightarrow> Some (round_double neg q))"

subsection \<open>String conversions of the f-strings\<close>

text \<open>
  \<^verbatim>\<open>{x:.6f}\<close>: the exact value rounded to six decimal places, ties to even, with the sign of
  the float (so \<open>-0.0\<close> and small negative values print as \<^verbatim>\<open>-0.000000\<close>).
\<close>

definition fmt_6f :: "pyfloat \<Rightarrow> string" where
  "fmt_6f x =
     (case x of
        NaN \<Rightarrow> ''nan''
      | Infinity s \<Rightarrow> (if s then ''-inf'' else ''inf'')
      | Finite s m \<Rightarrow>
          (let n = nat (round_half_even (m * 1000000));
               ip = str_nat (n div 1000000);
               fp = str_nat (n mod 1000000)
           in (if s then ''-'' else []) @ ip @ ''.'' @ replicate (6 - length fp) CHR ''0'' @ fp))"

text \<open>\<open>ilog10 m\<close> is \<open>\<lfloor>log\<^sub>1\<^sub>0 m\<rfloor>\<close> for a positive binary64 magnitude \<open>m\<close>.\<close>

definition ilog10 :: "rat \<Rightarrow> int" where
  "ilog10 m =
     (let k = (ilog2 m * 30103) div 100000
      in if 10 powi (k + 1) \<le> m then k + 1 else if 10 powi k \<le> m then k else k - 1)"

text \<open>
  The decimal of \<open>n\<close> significant digits next to \<open>m\<close> (where \<open>10\<^sup>k \<le> m < 10\<^sup>k\<^sup>+\<^sup>1\<close>) that
  reads back as \<open>m\<close>, as its integer of digits; the nearer one when the decimals on both
  sides of \<open>m\<close> do, and of two equally near ones the one whose last digit is even.
\<close>

definition digits_at :: "rat \<Rightarrow> int \<Rightarrow> nat \<Rightarrow> int option" where
  "digits_at m k n =
     (let scale = 10 powi (k - int n + 1);
          lo = \<lfloor>m / scale\<rfloor>;
          hi = lo + 1;
          ok_lo = (round_double False (of_int lo * scale) = Finite False m);
          ok_hi = (round_double False (of_int hi * scale) = Finite False m)
      in if ok_lo \<and> ok_hi
         then (if m - of_int lo * scale < of_int hi * scale - m then Some lo
               else if of_int hi * scale - m < m - of_int lo * scale then Some hi
               else if even lo then Some lo else Some hi)
         else if ok_lo then Some lo else if ok_hi then Some hi else None)"

text \<open>The first precision of the list at which such a decimal exists, with its digits.\<close>

fun shortest_digits :: "rat \<Rightarrow> int \<Rightarrow> nat list \<Rightarrow> int \<times> nat" where
  "shortest_digits m k [] = (\<lfloor>m / 10 powi (k - 16)\<rfloor>, 17)"
| "shortest_digits m k (n # ns) =
     (case digits_at m k n of Some d \<Rightarrow> (d, n) | None \<Rightarrow> shortest_digits m k ns)"

definition strip_zeros :: "string \<Rightarrow> string" where
  "strip_zeros ds = rev (dropWhile (\<lambda>c. c = CHR ''0'') (rev ds))"

text \<open>
  \<^verbatim>\<open>repr(x)\<close>, which is also \<^verbatim>\<open>str(x)\<close> and the f-string field \<^verbatim>\<open>{x}\<close>: the shortest
  digit string \<open>ds\<close> that reads back as \<open>x\<close>, where the value is \<open>0.ds \<times> 10\<^sup>d\<^sup>e\<^sup>c\<^sup>p\<^sup>t\<close>; printed
  in positional notation when \<open>-4 < decpt \<le> 16\<close> and in exponent notation otherwise.
\<close>

definition repr_float :: "pyfloat \<Rightarrow> string" where
  "repr_float x =
     (case x of
        NaN \<Rightarrow> ''nan''
      | Infinity s \<Rightarrow> (if s then ''-inf'' else ''inf'')
      | Finite s m \<Rightarrow>
          (if s then ''-'' else []) @
          (if m = 0 then ''0.0''
           else let k = ilog10 m;
                    (d, p) = shortest_digits m k [1 ..< 18];
                    all = str_nat (nat d);
                    ds = strip_zeros all;
                    n = length ds;
                    decpt = k - int p + 1 + int (length all);
                    ex = decpt - 1
                in if decpt \<le> - 4 \<or> 16 < decpt
                   then take 1 ds @ (if 1 < n then ''.'' @ drop 1 ds else []) @ ''e'' @
                        (if ex < 0 then ''-'' else ''+'') @
                        (if \<bar>ex\<bar> < 10 then ''0'' else []) @ str_nat (nat \<bar>ex\<bar>)
                   else if decpt \<le> 0
                   then ''0.'' @ replicate (nat (- decpt)) CHR ''0'' @ ds
                   else if int n \<le> decpt
                   then ds @ replicate (nat (decpt - int n)) CHR ''0'' @ ''.0''
                   else take (nat decpt) ds @ ''.'' @ drop (nat decpt) ds))"

definition hex_digit :: "nat \<Rightarrow> char" where
  "hex_digit d = (if d < 10 then char_of (48 + d) else char_of (87 + d))"

text \<open>
  One character inside \<^verbatim>\<open>repr(s)\<close> of a string quoted with \<open>q\<close>: the quote and the
  backslash are escaped, tab, newline and return have their letters, and the other
  characters that \<^verbatim>\<open>str.isprintable\<close> rejects (below 32, 127 to 160, and 173) are written
  \<^verbatim>\<open>\xhh\<close>.
\<close>

definition repr_char :: "char \<Rightarrow> char \<Rightarrow> string" where
  "repr_char q c =
     (let n = (of_char c :: nat)
      in if c = q \<or> c = CHR 0x5C then [CHR 0x5C, c]
         else if n = 9 then [CHR 0x5C, CHR ''t'']
         else if n = 10 then [CHR 0x5C, CHR ''n'']
         else if n = 13 then [CHR 0x5C, CHR ''r'']
         else if n < 32 \<or> (127 \<le> n \<and> n \<le> 160) \<or> n = 173
         then [CHR 0x5C, CHR ''x'', hex_digit (n div 16), hex_digit (n mod 16)]
         else [c])"

text \<open>
  \<^verbatim>\<open>repr(s)\<close> of a string: in single quotes, or in double quotes when the string contains
  a single quote and no double quote.
\<close>

definition repr_str :: "string \<Rightarrow> string" where
  "repr_str s =
     (let q = (if CHR 0x27 \<in> set s \<and> CHR 0x22 \<notin> set s then CHR 0x22 else CHR 0x27)
      in [q] @ concat (map (repr_char q) s) @ [q])"

subsection \<open>The finding: class \<^verbatim>\<open>LabelValidationError\<close>\<close>

record label_validation_error =
  filename :: string
  line_num :: int
  line_content :: string
  reason :: string

text \<open>The constructor \<^verbatim>\<open>__init__\<close>, which stores the line content stripped.\<close>

definition LabelValidationError ::
    "string \<Rightarrow> int \<Rightarrow> string \<Rightarrow> string \<Rightarrow> label_validation_error" where
  "LabelValidationError fname lnum content rsn =
     \<lparr>filename = fname, line_num = lnum, line_content = strip content, reason = rsn\<rparr>"

subsection \<open>The line validator: \<^verbatim>\<open>validate_yolo_line\<close>\<close>

text \<open>
  In the definitions below the parameters \<^verbatim>\<open>line_num\<close> and \<^verbatim>\<open>filename\<close> of the source are
  written \<open>lnum\<close> and \<open>fname\<close> (the attribute names are taken by the record), and
  \<open>line0\<close> is the parameter \<^verbatim>\<open>line\<close> before the source rebinds it to its stripped text.
\<close>

text \<open>\<^verbatim>\<open>str(e)\<close> of the \<^verbatim>\<open>ValueError\<close> that \<^verbatim>\<open>float(s)\<close> raises.\<close>

definition float_value_error :: "string \<Rightarrow> string" where
  "float_value_error s = ''could not convert string to float: '' @ repr_str s"

definition coord_names :: "string list" where
  "coord_names = [''center_x'', ''center_y'', ''width'', ''height'']"

text \<open>\<^verbatim>\<open>enumerate(xs, start=n)\<close>.\<close>

primrec enumerate_from :: "int \<Rightarrow> 'a list \<Rightarrow> (int \<times> 'a) list" where
  "enumerate_from n [] = []"
| "enumerate_from n (x # xs) = (n, x) # enumerate_from (n + 1) xs"

text \<open>
  The loop \<^verbatim>\<open>for i, coord in enumerate(coords)\<close> of the NaN/Infinity check: the reason of
  the \<^verbatim>\<open>return\<close> it takes, or \<open>None\<close> when it runs to its end.
\<close>

fun nan_inf_loop :: "(int \<times> pyfloat) list \<Rightarrow> string option" where
  "nan_inf_loop [] = None"
| "nan_inf_loop ((i, coord) # rest) =
     (if isnan coord then Some (coord_names ! nat i @ '' is NaN'')
      else if isinf coord then Some (coord_names ! nat i @ '' is Infinity'')
      else nan_inf_loop rest)"

text \<open>
  The four box boundaries, in the order the source computes them. Each is \<open>None\<close> when
  its division raises, which the handler \<^verbatim>\<open>except Exception\<close> of the source turns into
  the finding \<^verbatim>\<open>Unexpected error\<close>.
\<close>

definition box_edges ::
    "pyfloat \<Rightarrow> pyfloat \<Rightarrow> pyfloat \<Rightarrow> pyfloat \<Rightarrow> (pyfloat \<times> pyfloat \<times> pyfloat \<times> pyfloat) option" where
  "box_edges center_x center_y width height =
     do {
       hw1 \<leftarrow> fl_truediv width (fl_int 2);
       let x_min = fl_sub center_x hw1;
       hw2 \<leftarrow> fl_truediv width (fl_int 2);
       let x_max = fl_add center_x hw2;
       hh1 \<leftarrow> fl_truediv height (fl_int 2);
       let y_min = fl_sub center_y hh1;
       hh2 \<leftarrow> fl_truediv height (fl_int 2);
       let y_max = fl_add center_y hh2;
       Some (x_min, x_max, y_min, y_max)
     }"

definition validate_yolo_line :: "string \<Rightarrow> int \<Rightarrow> string \<Rightarrow> label_validation_error option" where
  "validate_yolo_line line0 lnum fname =
     (let line = strip line0 in
      if line = [] then None
      else
        let parts = py_split line in
        if length parts \<noteq> 5
        then Some (LabelValidationError fname lnum line
                     (''Expected exactly 5 values, found '' @ str_nat (length parts)))
        else
          let class_id_str = parts ! 0; center_x_str = parts ! 1; center_y_str = parts ! 2;
              width_str = parts ! 3; height_str = parts ! 4
          in
          case py_int class_id_str of
            None \<Rightarrow>
              Some (LabelValidationError fname lnum line
                      (''class_id must be integer, found: '' @ [CHR 0x27] @ class_id_str @ [CHR 0x27]))
          | Some class_id \<Rightarrow>
              if class_id < 0
              then Some (LabelValidationError fname lnum line
                           (''class_id must be non-negative integer, found: '' @ str_int class_id))
              else
              (case py_float center_x_str of
                 None \<Rightarrow>
                   Some (LabelValidationError fname lnum line
                           (''Invalid numeric value: '' @ float_value_error center_x_str))
               | Some center_x \<Rightarrow>
              (case py_float center_y_str of
                 None \<Rightarrow>
                   Some (LabelValidationError fname lnum line
                           (''Invalid numeric value: '' @ float_value_error center_y_str))
               | Some center_y \<Rightarrow>
              (case py_float width_str of
                 None \<Rightarrow>
                   Some (LabelValidationError fname lnum line
                           (''Invalid numeric value: '' @ float_value_error width_str))
               | Some width \<Rightarrow>
              (case py_float height_str of
                 None \<Rightarrow>
                   Some (LabelValidationError fname lnum line
                           (''Invalid numeric value: '' @ float_value_error height_str))
               | Some height \<Rightarrow>
              (case nan_inf_loop (enumerate_from 0 [center_x, center_y, width, height]) of
                 Some rsn \<Rightarrow> Some (LabelValidationError fname lnum line rsn)
               | None \<Rightarrow>
                   if fl_le width (fl_int 0)
                   then Some (LabelValidationError fname lnum line
                                (''width must be > 0, found: '' @ repr_float width))
                   else if fl_le height (fl_int 0)
                   then Some (LabelValidationError fname lnum line
                                (''height must be > 0, found: '' @ repr_float height))
                   else if fl_lt center_x (fl_int 0) \<or> fl_gt center_x (fl_int 1)
                   then Some (LabelValidationError fname lnum line
                                (''center_x must be in [0, 1], found: '' @ repr_float center_x))
                   else if fl_lt center_y (fl_int 0) \<or> fl_gt center_y (fl_int 1)
                   then Some (LabelValidationError fname lnum line
                                (''center_y must be in [0, 1], found: '' @ repr_float center_y))
                   else
                   (case box_edges center_x center_y width height of
                      None \<Rightarrow>
                        Some (LabelValidationError fname lnum line
                                (''Unexpected error: float division by zero''))
                    | Some (x_min, x_max, y_min, y_max) \<Rightarrow>
                        if fl_lt x_min (fl_int 0)
                        then Some (LabelValidationError fname lnum line
                                     (''Bounding box exceeds left edge: x_min='' @ fmt_6f x_min @ '' < 0''))
                        else if fl_gt x_max (fl_int 1)
                        then Some (LabelValidationError fname lnum line
                                     (''Bounding box exceeds right edge: x_max='' @ fmt_6f x_max @ '' > 1''))
                        else if fl_lt y_min (fl_int 0)
                        then Some (LabelValidationError fname lnum line
                                     (''Bounding box exceeds top edge: y_min='' @ fmt_6f y_min @ '' < 0''))
                        else if fl_gt y_max (fl_int 1)
                        then Some (LabelValidationError fname lnum line
                                     (''Bounding box exceeds bottom edge: y_max='' @ fmt_6f y_max @ '' > 1''))
                        else None)))))))"

subsection \<open>The file validator: \<^verbatim>\<open>validate_label_file\<close>\<close>

text \<open>
  What \<^verbatim>\<open>open(filepath, 'r', encoding='utf-8')\<close> followed by reading the file to its end
  gives: the decoded text, a \<^verbatim>\<open>UnicodeDecodeError\<close>, or another exception \<open>e\<close>, kept as
  its message \<^verbatim>\<open>str(e)\<close>.
\<close>

datatype read_result = Decoded string | UnicodeDecodeError | ReadException string

text \<open>
  A path to a label file, as far as the program observes it: \<^verbatim>\<open>filepath.name\<close> and the
  outcome of opening and reading it. The file is taken not to change during a scan, so
  both reads of \<^verbatim>\<open>scan_dataset\<close> see the same outcome.
\<close>

record filepath =
  name :: string
  opened :: read_result

text \<open>
  The lines of a text file opened with universal newlines, as \<^verbatim>\<open>f.readlines()\<close> and the
  iteration \<^verbatim>\<open>for l in f\<close> yield them: \<^verbatim>\<open>\n\<close>, \<^verbatim>\<open>\r\n\<close> and \<^verbatim>\<open>\r\<close> each end a line and
  are read as \<^verbatim>\<open>\n\<close>, which stays at the end of the line. \<open>lines_from s cur\<close> scans
  \<open>s\<close> with the current line \<open>cur\<close> held reversed.
\<close>

fun lines_from :: "string \<Rightarrow> string \<Rightarrow> string list" where
  "lines_from [] cur = (if cur = [] then [] else [rev cur])"
| "lines_from (c # cs) cur =
     (if c = CHR 0x0A then rev (CHR 0x0A # cur) # lines_from cs []
      else if c = CHR 0x0D
      then rev (CHR 0x0A # cur) # lines_from (if take 1 cs = [CHR 0x0A] then drop 1 cs else cs) []
      else lines_from cs (c # cur))"

definition readlines :: "string \<Rightarrow> string list" where
  "readlines text = lines_from text []"

text \<open>
  The loop \<^verbatim>\<open>for line_num, line in enumerate(lines, start=1)\<close>, with the list \<^verbatim>\<open>errors\<close>
  as its state.
\<close>

fun validate_lines ::
    "string \<Rightarrow> (int \<times> string) list \<Rightarrow> label_validation_error list \<Rightarrow> label_validation_error list" where
  "validate_lines fname [] errors = errors"
| "validate_lines fname ((lnum, line) # rest) errors =
     (case validate_yolo_line line lnum fname of
        None \<Rightarrow> validate_lines fname rest errors
      | Some error \<Rightarrow> validate_lines fname rest (errors @ [error]))"

definition validate_label_file :: "filepath \<Rightarrow> label_validation_error list" where
  "validate_label_file path =
     (case opened path of
        Decoded text \<Rightarrow>
          (let lines = readlines text
           in if lines = [] then []
              else validate_lines (name path) (enumerate_from 1 lines) [])
      | UnicodeDecodeError \<Rightarrow>
          [LabelValidationError (name path) 0 [] ''File encoding error: not valid UTF-8'']
      | ReadException msg \<Rightarrow>
          [LabelValidationError (name path) 0 [] (''File read error: '' @ msg)])"

subsection \<open>The scanner: \<^verbatim>\<open>scan_dataset\<close> and \<^verbatim>\<open>main\<close>\<close>

text \<open>
  The dataset directory as the program observes it: whether \<^verbatim>\<open>dataset_path\<close> exists, and
  for each split the text of \<^verbatim>\<open>labels_dir\<close> and either \<open>None\<close> (\<^verbatim>\<open>labels_dir.exists()\<close> is
  false) or the list \<^verbatim>\<open>sorted(labels_dir.glob('*.txt'))\<close>.
\<close>

record dataset =
  root_exists :: bool
  labels_dir_str :: "string \<Rightarrow> string"
  labels_dir_txt :: "string \<Rightarrow> filepath list option"

text \<open>
  The state of \<^verbatim>\<open>scan_dataset\<close>: its three local variables, which it returns, and the
  texts it has printed, one entry for each \<^verbatim>\<open>print\<close>.
\<close>

record scan_state =
  all_errors :: "label_validation_error list"
  total_files :: int
  total_lines :: int
  printed :: "string list"

text \<open>
  The statistics read of one file: the number of lines \<open>l\<close> with \<^verbatim>\<open>l.strip()\<close> non-empty,
  or \<open>None\<close> when the read raises.
\<close>

definition count_lines :: "filepath \<Rightarrow> int option" where
  "count_lines txt_file =
     (case opened txt_file of
        Decoded text \<Rightarrow> Some (int (length (filter (\<lambda>l. strip l \<noteq> []) (readlines text))))
      | UnicodeDecodeError \<Rightarrow> None
      | ReadException msg \<Rightarrow> None)"

text \<open>The body of the loop \<^verbatim>\<open>for txt_file in txt_files\<close>.\<close>

definition scan_file :: "filepath \<Rightarrow> scan_state \<Rightarrow> scan_state" where
  "scan_file txt_file st =
     (let st1 = st\<lparr>total_files := total_files st + 1\<rparr>;
          errors = validate_label_file txt_file;
          st2 = (if errors \<noteq> [] then st1\<lparr>all_errors := all_errors st1 @ errors\<rparr> else st1)
      in case count_lines txt_file of
           Some line_count \<Rightarrow> st2\<lparr>total_lines := total_lines st2 + line_count\<rparr>
         | None \<Rightarrow> st2)"

fun scan_files :: "filepath list \<Rightarrow> scan_state \<Rightarrow> scan_state" where
  "scan_files [] st = st"
| "scan_files (txt_file # rest) st = scan_files rest (scan_file txt_file st)"

text \<open>The body of the loop \<^verbatim>\<open>for split in ['train', 'val']\<close>.\<close>

definition scan_split :: "dataset \<Rightarrow> string \<Rightarrow> scan_state \<Rightarrow> scan_state" where
  "scan_split ds split st =
     (case labels_dir_txt ds split of
        None \<Rightarrow>
          st\<lparr>printed := printed st @ [''WARNING: Directory not found: '' @ labels_dir_str ds split]\<rparr>
      | Some txt_files \<Rightarrow>
          (let st1 = st\<lparr>printed := printed st @ [CHR 0x0A # ''Scanning: '' @ labels_dir_str ds split]\<rparr>
           in if txt_files = []
              then st1\<lparr>printed := printed st1 @ [''   No .txt files found in '' @ split @ ''/'']\<rparr>
              else scan_files txt_files
                     (st1\<lparr>printed := printed st1 @
                          [''   Found '' @ str_nat (length txt_files) @ '' label file(s)'']\<rparr>)))"

fun scan_splits :: "dataset \<Rightarrow> string list \<Rightarrow> scan_state \<Rightarrow> scan_state" where
  "scan_splits ds [] st = st"
| "scan_splits ds (split # rest) st = scan_splits ds rest (scan_split ds split st)"

definition scan_dataset :: "dataset \<Rightarrow> scan_state" where
  "scan_dataset ds =
     scan_splits ds [''train'', ''val'']
       \<lparr>all_errors = [], total_files = 0, total_lines = 0, printed = []\<rparr>"

text \<open>
  \<^verbatim>\<open>main\<close>, as the exit code of the process: \<^verbatim>\<open>sys.exit(1)\<close> when the dataset path does
  not exist, and \<^verbatim>\<open>sys.exit(1 if errors else 0)\<close> after the scan and the report. The report
  that \<^verbatim>\<open>main\<close> prints is not part of the model.
\<close>

definition main :: "dataset \<Rightarrow> int" where
  "main ds =
     (if \<not> root_exists ds then 1
      else let errors = all_errors (scan_dataset ds)
           in if errors \<noteq> [] then 1 else 0)"

subsection \<open>The validation sequence as the specification words it\<close>

text \<open>
  The specification describes the line validator as a fixed sequence of checks that stops
  at the first failure. The checks are named here in that order, and each is given on its
  own, as a condition on the stripped line, without reference to the checks before it.
\<close>

datatype check =
    Token_count | Class_id | Float_parse | Nan_or_infinity
  | Width_positive | Height_positive | Center_x_range | Center_y_range
  | X_min_edge | X_max_edge | Y_min_edge | Y_max_edge

definition check_sequence :: "check list" where
  "check_sequence =
     [Token_count, Class_id, Float_parse, Nan_or_infinity,
      Width_positive, Height_positive, Center_x_range, Center_y_range,
      X_min_edge, X_max_edge, Y_min_edge, Y_max_edge]"

text \<open>Token \<open>i\<close> of the line (counted from 0), when the line has that many tokens.\<close>

definition token :: "string \<Rightarrow> nat \<Rightarrow> string option" where
  "token line i = (let parts = py_split line in if i < length parts then Some (parts ! i) else None)"

text \<open>
  The four coordinate fields \<^verbatim>\<open>center_x\<close>, \<^verbatim>\<open>center_y\<close>, \<^verbatim>\<open>width\<close>, \<^verbatim>\<open>height\<close> are tokens 1
  to 4; \<open>coord line i\<close> is the float that token \<open>i\<close> parses as.
\<close>

definition coord :: "string \<Rightarrow> nat \<Rightarrow> pyfloat option" where
  "coord line i = Option.bind (token line i) py_float"

definition coords :: "string \<Rightarrow> pyfloat option list" where
  "coords line = map (coord line) [1, 2, 3, 4]"

definition special :: "pyfloat option \<Rightarrow> bool" where
  "special c = (case c of Some x \<Rightarrow> isnan x \<or> isinf x | None \<Rightarrow> False)"

text \<open>The derived edges: centre minus, or plus, half of the extent.\<close>

definition edge_minus :: "string \<Rightarrow> nat \<Rightarrow> nat \<Rightarrow> pyfloat option" where
  "edge_minus line i j =
     do { c \<leftarrow> coord line i; d \<leftarrow> coord line j; h \<leftarrow> fl_truediv d (fl_int 2); Some (fl_sub c h) }"

definition edge_plus :: "string \<Rightarrow> nat \<Rightarrow> nat \<Rightarrow> pyfloat option" where
  "edge_plus line i j =
     do { c \<leftarrow> coord line i; d \<leftarrow> coord line j; h \<leftarrow> fl_truediv d (fl_int 2); Some (fl_add c h) }"

text \<open>
  \<open>in_unit x\<close>: the value lies in the closed interval from 0 to 1. A check on a value
  that does not exist (a missing token, a token that does not parse) is not violated.
\<close>

definition in_unit :: "pyfloat \<Rightarrow> bool" where
  "in_unit x \<longleftrightarrow> fl_le (fl_int 0) x \<and> fl_le x (fl_int 1)"

fun violated :: "check \<Rightarrow> string \<Rightarrow> bool" where
  "violated Token_count line = (length (py_split line) \<noteq> 5)"
| "violated Class_id line =
     (case Option.bind (token line 0) py_int of None \<Rightarrow> True | Some c \<Rightarrow> c < 0)"
| "violated Float_parse line = list_ex (\<lambda>t. py_float t = None) (take 4 (drop 1 (py_split line)))"
| "violated Nan_or_infinity line = list_ex special (coords line)"
| "violated Width_positive line =
     (case coord line 3 of Some w \<Rightarrow> \<not> fl_gt w (fl_int 0) | None \<Rightarrow> False)"
| "violated Height_positive line =
     (case coord line 4 of Some h \<Rightarrow> \<not> fl_gt h (fl_int 0) | None \<Rightarrow> False)"
| "violated Center_x_range line =
     (case coord line 1 of Some x \<Rightarrow> \<not> in_unit x | None \<Rightarrow> False)"
| "violated Center_y_range line =
     (case coord line 2 of Some y \<Rightarrow> \<not> in_unit y | None \<Rightarrow> False)"
| "violated X_min_edge line =
     (case edge_minus line 1 3 of Some e \<Rightarrow> \<not> fl_le (fl_int 0) e | None \<Rightarrow> False)"
| "violated X_max_edge line =
     (case edge_plus line 1 3 of Some e \<Rightarrow> \<not> fl_le e (fl_int 1) | None \<Rightarrow> False)"
| "violated Y_min_edge line =
     (case edge_minus line 2 4 of Some e \<Rightarrow> \<not> fl_le (fl_int 0) e | None \<Rightarrow> False)"
| "violated Y_max_edge line =
     (case edge_plus line 2 4 of Some e \<Rightarrow> \<not> fl_le e (fl_int 1) | None \<Rightarrow> False)"

text \<open>
  The reason that reports a violated check: the message of the source for that check,
  built from the line alone.
\<close>

fun describe :: "check \<Rightarrow> string \<Rightarrow> string" where
  "describe Token_count line =
     ''Expected exactly 5 values, found '' @ str_nat (length (py_split line))"
| "describe Class_id line =
     (case token line 0 of
        None \<Rightarrow> []
      | Some t \<Rightarrow>
          (case py_int t of
             None \<Rightarrow> ''class_id must be integer, found: '' @ [CHR 0x27] @ t @ [CHR 0x27]
           | Some c \<Rightarrow> ''class_id must be non-negative integer, found: '' @ str_int c))"
| "describe Float_parse line =
     (case find (\<lambda>t. py_float t = None) (take 4 (drop 1 (py_split line))) of
        None \<Rightarrow> []
      | Some t \<Rightarrow> ''Invalid numeric value: '' @ float_value_error t)"
| "describe Nan_or_infinity line =
     (case find (\<lambda>(nm, c). special c) (zip coord_names (coords line)) of
        Some (nm, Some x) \<Rightarrow> nm @ (if isnan x then '' is NaN'' else '' is Infinity'')
      | _ \<Rightarrow> [])"
| "describe Width_positive line =
     (case coord line 3 of Some w \<Rightarrow> ''width must be > 0, found: '' @ repr_float w | None \<Rightarrow> [])"
| "describe Height_positive line =
     (case coord line 4 of Some h \<Rightarrow> ''height must be > 0, found: '' @ repr_float h | None \<Rightarrow> [])"
| "describe Center_x_range line =
     (case coord line 1 of
        Some x \<Rightarrow> ''center_x must be in [0, 1], found: '' @ repr_float x | None \<Rightarrow> [])"
| "describe Center_y_range line =
     (case coord line 2 of
        Some y \<Rightarrow> ''center_y must be in [0, 1], found: '' @ repr_float y | None \<Rightarrow> [])"
| "describe X_min_edge line =
     (case edge_minus line 1 3 of
        Some e \<Rightarrow> ''Bounding box exceeds left edge: x_min='' @ fmt_6f e @ '' < 0'' | None \<Rightarrow> [])"
| "describe X_max_edge line =
     (case edge_plus line 1 3 of
        Some e \<Rightarrow> ''Bounding box exceeds right edge: x_max='' @ fmt_6f e @ '' > 1'' | None \<Rightarrow> [])"
| "describe Y_min_edge line =
     (case edge_minus line 2 4 of
        Some e \<Rightarrow> ''Bounding box exceeds top edge: y_min='' @ fmt_6f e @ '' < 0'' | None \<Rightarrow> [])"
| "describe Y_max_edge line =
     (case edge_plus line 2 4 of
        Some e \<Rightarrow> ''Bounding box exceeds bottom edge: y_max='' @ fmt_6f e @ '' > 1'' | None \<Rightarrow> [])"

text \<open>The verdict the sequence prescribes: the reason of its first violated check.\<close>

definition first_violation :: "string \<Rightarrow> check option" where
  "first_violation line = find (\<lambda>c. violated c line) check_sequence"

subsection \<open>Notions the statements about the scanner use\<close>

text \<open>The label files of one split that the scan visits: none when its directory is absent.\<close>

definition split_files :: "dataset \<Rightarrow> string \<Rightarrow> filepath list" where
  "split_files ds split = (case labels_dir_txt ds split of None \<Rightarrow> [] | Some txt_files \<Rightarrow> txt_files)"

definition scanned_files :: "dataset \<Rightarrow> filepath list" where
  "scanned_files ds = split_files ds ''train'' @ split_files ds ''val''"

text \<open>
  What one file adds to the line statistic according to the specification: the number of
  its non-blank lines when its read succeeds, and nothing when the read fails.
\<close>

definition nonblank_lines :: "filepath \<Rightarrow> int" where
  "nonblank_lines path =
     (case opened path of
        Decoded text \<Rightarrow> int (length (filter (\<lambda>l. strip l \<noteq> []) (readlines text)))
      | UnicodeDecodeError \<Rightarrow> 0
      | ReadException msg \<Rightarrow> 0)"

text \<open>The invariant of a finding that the data model of the specification states.\<close>

definition finding_invariant :: "label_validation_error \<Rightarrow> bool" where
  "finding_invariant e \<longleftrightarrow>
     (if line_num e = 0 then line_content e = [] else 1 \<le> line_num e \<and> line_content e \<noteq> [])"

text \<open>A float that is neither NaN nor an infinity.\<close>

definition is_finite :: "pyfloat \<Rightarrow> bool" where
  "is_finite x \<longleftrightarrow> \<not> isnan x \<and> \<not> isinf x"

text \<open>
  A magnitude on the binary64 grid: a whole multiple of the unit in the last place at its
  size. The floats that \<^verbatim>\<open>float(s)\<close> and the arithmetic return have such magnitudes.
\<close>

definition on_grid :: "rat \<Rightarrow> bool" where
  "on_grid m \<longleftrightarrow> (\<exists>n::int. m = of_int n * 2 powi quantum m)"

text \<open>The real number a finite float stands for (0 for NaN and the infinities).\<close>

fun value_of :: "pyfloat \<Rightarrow> rat" where
  "value_of (Finite s m) = fval s m"
| "value_of (Infinity s) = 0"
| "value_of NaN = 0"

text \<open>
  The four derived edges lie in [0, 1], in the two readings of the validity condition:
  the edges as binary64 arithmetic computes them (the reading of the specification, whose
  arithmetic is IEEE double precision), and the edges as exact real numbers.
\<close>

definition edges_in_unit_binary64 :: "pyfloat \<Rightarrow> pyfloat \<Rightarrow> pyfloat \<Rightarrow> pyfloat \<Rightarrow> bool" where
  "edges_in_unit_binary64 center_x center_y width height =
     (case (fl_truediv width (fl_int 2), fl_truediv height (fl_int 2)) of
        (Some half_w, Some half_h) \<Rightarrow>
          in_unit (fl_sub center_x half_w) \<and> in_unit (fl_add center_x half_w) \<and>
          in_unit (fl_sub center_y half_h) \<and> in_unit (fl_add center_y half_h)
      | _ \<Rightarrow> False)"

definition edges_in_unit_exact :: "pyfloat \<Rightarrow> pyfloat \<Rightarrow> pyfloat \<Rightarrow> pyfloat \<Rightarrow> bool" where
  "edges_in_unit_exact center_x center_y width height \<longleftrightarrow>
     0 \<le> value_of center_x - value_of width / 2 \<and> value_of center_x + value_of width / 2 \<le> 1 \<and>
     0 \<le> value_of center_y - value_of height / 2 \<and> value_of center_y + value_of height / 2 \<le> 1"

section \<open>Properties of the built-ins\<close>

subsection \<open>Binary logarithm and rounding\<close>

lemma pow2_of_bitlen:
  assumes "0 < (p::int)"
  shows "(2::rat) powi (bitlen p - 1) \<le> of_int p" and "of_int p < (2::rat) powi bitlen p"
proof -
  have b1: "1 \<le> bitlen p" using assms by (simp add: bitlen_alt_def)
  from bitlen_bounds[OF assms] have lo: "2 ^ nat (bitlen p - 1) \<le> p" and hi: "p < 2 ^ nat (bitlen p)"
    by auto
  have "(of_int (2 ^ nat (bitlen p - 1)) :: rat) \<le> of_int p" using lo by (simp only: of_int_le_iff)
  then show "(2::rat) powi (bitlen p - 1) \<le> of_int p" using b1 by (simp add: power_int_def)
  have "(of_int p :: rat) < of_int (2 ^ nat (bitlen p))" using hi by (simp only: of_int_less_iff)
  then show "of_int p < (2::rat) powi bitlen p" using b1 by (simp add: power_int_def)
qed

lemma ilog2_bounds:
  assumes "0 < a"
  shows "2 powi ilog2 a \<le> a" and "a < 2 powi (ilog2 a + 1)"
proof -
  obtain p q where pq: "quotient_of a = (p, q)" by fastforce
  have q0: "0 < q" using quotient_of_denom_pos[OF pq] .
  have a_eq: "a = of_int p / of_int q" using quotient_of_div[OF pq] .
  have p0: "0 < p" using assms a_eq q0 by (simp add: zero_less_divide_iff)
  define d where "d = bitlen p - bitlen q"
  note P = pow2_of_bitlen[OF p0] and Q = pow2_of_bitlen[OF q0]
  have qr: "0 < (of_int q :: rat)" using q0 by simp
  have "a < 2 powi bitlen p / of_int q" unfolding a_eq using P(2) qr by (simp add: divide_strict_right_mono)
  also have "\<dots> \<le> 2 powi bitlen p / 2 powi (bitlen q - 1)"
    using Q(1) by (intro divide_left_mono) (auto intro!: mult_pos_pos qr)
  also have "\<dots> = 2 powi (d + 1)" unfolding d_def by (simp add: power_int_diff[symmetric] algebra_simps)
  finally have up: "a < 2 powi (d + 1)" .
  have "(2::rat) powi (d - 1) = 2 powi (bitlen p - 1) / 2 powi bitlen q"
    unfolding d_def by (simp add: power_int_diff[symmetric] algebra_simps)
  also have "\<dots> \<le> of_int p / 2 powi bitlen q" using P(1) by (simp add: divide_right_mono)
  also have "\<dots> \<le> of_int p / of_int q" using Q(2) p0 qr by (intro divide_left_mono) (auto intro!: mult_pos_pos)
  finally have lo: "2 powi (d - 1) \<le> a" unfolding a_eq .
  have il: "ilog2 a = (if 2 powi d \<le> a then d else d - 1)"
    by (simp add: ilog2_def pq d_def Let_def)
  show "2 powi ilog2 a \<le> a" using lo by (simp add: il)
  show "a < 2 powi (ilog2 a + 1)" using up by (auto simp add: il)
qed

lemma pow2_less_iff: "(2::rat) powi m < 2 powi n \<longleftrightarrow> m < n"
proof
  assume "(2::rat) powi m < 2 powi n"
  show "m < n"
  proof (rule ccontr)
    assume "\<not> m < n"
    then have "n \<le> m" by simp
    then have "(2::rat) powi n \<le> 2 powi m" by (intro power_int_increasing) auto
    with \<open>(2::rat) powi m < 2 powi n\<close> show False by simp
  qed
next
  assume "m < n"
  then show "(2::rat) powi m < 2 powi n" by (intro power_int_strict_increasing) auto
qed

lemma pow2_le_iff: "(2::rat) powi m \<le> 2 powi n \<longleftrightarrow> m \<le> n"
  using pow2_less_iff[of n m] by (auto simp: not_less[symmetric])

lemma ilog2_eqI:
  assumes "2 powi k \<le> a" "a < 2 powi (k + 1)"
  shows "ilog2 a = k"
proof -
  have "0 < (2::rat) powi k" by simp
  then have a0: "0 < a" using assms(1) by (rule less_le_trans)
  note B = ilog2_bounds[OF a0]
  have "(2::rat) powi k < 2 powi (ilog2 a + 1)" using assms(1) B(2) by simp
  then have 1: "k < ilog2 a + 1" by (simp add: pow2_less_iff)
  have "(2::rat) powi ilog2 a < 2 powi (k + 1)" using assms(2) B(1) by simp
  then have 2: "ilog2 a < k + 1" by (simp add: pow2_less_iff)
  show ?thesis using 1 2 by simp
qed

lemma quantum_eqI:
  assumes "2 powi k \<le> a" "a < 2 powi (k + 1)"
  shows "quantum a = max (k - 52) (- 1074)"
  by (simp add: quantum_def ilog2_eqI[OF assms])

lemma round_double_eval:
  assumes "2 powi k \<le> a" "a < 2 powi (k + 1)"
  shows "round_double s a =
           (let e = max (k - 52) (- 1074); m = of_int (round_half_even (a / 2 powi e)) * 2 powi e
            in if 2 powi 1024 \<le> m then Infinity s else Finite s m)"
proof -
  have "0 < (2::rat) powi k" by simp
  then have "0 < a" using assms(1) by (rule less_le_trans)
  then show ?thesis by (simp add: round_double_def quantum_eqI[OF assms])
qed


lemma round_half_even_frac:
  assumes "0 < q"
  shows "round_half_even (of_int p / of_int q) =
           (let f = p div q; r2 = 2 * (p mod q)
            in if r2 < q then f else if q < r2 then f + 1 else if even f then f else f + 1)"
proof -
  have fl: "\<lfloor>(of_int p / of_int q :: rat)\<rfloor> = p div q" by (rule floor_divide_of_int_eq)
  have qr: "0 < (of_int q :: rat)" using assms by simp
  have "(of_int p :: rat) = of_int (p div q * q + p mod q)" by simp
  also have "\<dots> = of_int (p div q) * of_int q + of_int (p mod q)" by (simp only: of_int_add of_int_mult)
  finally have "(of_int p / of_int q :: rat) = of_int (p div q) + of_int (p mod q) / of_int q"
    using qr by (simp add: field_simps)
  then have r: "(of_int p / of_int q :: rat) - of_int (p div q) = of_int (p mod q) / of_int q"
    by simp
  have lt: "(of_int (p mod q) / of_int q :: rat) < 1 / 2 \<longleftrightarrow> 2 * (p mod q) < q"
  proof -
    have "(of_int (p mod q) / of_int q :: rat) < 1 / 2 \<longleftrightarrow> (of_int (2 * (p mod q)) :: rat) < of_int q"
      using qr by (simp add: field_simps)
    then show ?thesis by (simp only: of_int_less_iff)
  qed
  have gt: "1 / 2 < (of_int (p mod q) / of_int q :: rat) \<longleftrightarrow> q < 2 * (p mod q)"
  proof -
    have "1 / 2 < (of_int (p mod q) / of_int q :: rat) \<longleftrightarrow> (of_int q :: rat) < of_int (2 * (p mod q))"
      using qr by (simp add: field_simps)
    then show ?thesis by (simp only: of_int_less_iff)
  qed
  show ?thesis by (simp only: round_half_even_def Let_def fl r lt gt)
qed

lemma round_half_even_numeral_frac:
  "round_half_even (numeral a / numeral b) =
           (let f = (numeral a :: int) div numeral b; r2 = 2 * ((numeral a :: int) mod numeral b)
            in if r2 < numeral b then f else if numeral b < r2 then f + 1 else if even f then f else f + 1)"
  using round_half_even_frac[of "numeral b" "numeral a"] by simp

lemma round_half_even_of_int: "round_half_even (of_int n) = n"
  by (simp add: round_half_even_def)

lemma round_half_even_numeral: "round_half_even (numeral a) = numeral a"
  using round_half_even_of_int[of "numeral a"] by simp

lemmas rhe_eval = round_half_even_numeral_frac round_half_even_numeral


lemma fl_int_0: "fl_int 0 = Finite False 0"
  by (simp add: fl_int_def fl_of_rat_def round_double_def)

lemma fl_int_1: "fl_int 1 = Finite False 1"
  unfolding fl_int_def fl_of_rat_def
  by (subst round_double_eval[where k=0]) (simp_all add: rhe_eval Let_def)

lemma fl_int_2: "fl_int 2 = Finite False 2"
  unfolding fl_int_def fl_of_rat_def
  by (subst round_double_eval[where k=1]) (simp_all add: rhe_eval Let_def)

lemma lstrip_idem: "lstrip (lstrip s) = lstrip s"
  by (simp add: lstrip_def)

lemma dropWhile_rstrip:
  assumes "s = [] \<or> \<not> isspace (hd s)"
  shows "dropWhile isspace (rstrip s) = rstrip s"
proof (cases "rstrip s")
  case Nil
  then show ?thesis by simp
next
  case (Cons c cs)
  have "\<exists>zs. s = rstrip s @ zs"
    unfolding rstrip_def
    by (metis rev_append rev_rev_ident takeWhile_dropWhile_id)
  then obtain zs where "s = (c # cs) @ zs" using Cons by auto
  then have "hd s = c" "s \<noteq> []" by auto
  with assms have "\<not> isspace c" by auto
  then show ?thesis by (simp add: Cons)
qed

lemma rstrip_idem: "rstrip (rstrip s) = rstrip s"
  by (simp add: rstrip_def)

lemma strip_idem: "strip (strip s) = strip s"
proof -
  have "lstrip s = [] \<or> \<not> isspace (hd (lstrip s))"
    unfolding lstrip_def by (metis hd_dropWhile)
  then have "lstrip (rstrip (lstrip s)) = rstrip (lstrip s)"
    unfolding lstrip_def[of "rstrip (lstrip s)"] by (rule dropWhile_rstrip)
  then show ?thesis by (simp add: strip_def rstrip_idem)
qed

lemma strip_Nil: "strip [] = []"
  by (simp add: strip_def lstrip_def rstrip_def)

lemma isnan_round_double: "\<not> isnan (round_double s a)"
  by (simp add: round_double_def Let_def)

lemma fl_lt_iff_not_le: "\<not> isnan x \<Longrightarrow> \<not> isnan y \<Longrightarrow> fl_lt x y \<longleftrightarrow> \<not> fl_le y x"
  by (cases x; cases y) auto

lemma round_double_cases:
  "(\<exists>m. round_double s a = Finite s m) \<or> round_double s a = Infinity s"
  by (simp add: round_double_def Let_def)

lemma isnan_fl_add_Finite: "\<not> isnan y \<Longrightarrow> \<not> isnan (fl_add (Finite s m) y)"
  by (cases y) (auto simp: Let_def fl_of_rat_def isnan_round_double)

lemma isnan_fl_neg: "isnan (fl_neg y) = isnan y"
  by (cases y) auto

lemma isnan_fl_sub_Finite: "\<not> isnan y \<Longrightarrow> \<not> isnan (fl_sub (Finite s m) y)"
  by (simp add: fl_sub_def isnan_fl_add_Finite isnan_fl_neg)

lemma fl_truediv_2: "fl_truediv (Finite s m) (fl_int 2) = Some (round_double s (m / 2))"
  by (simp add: fl_int_2)

lemma token_5:
  assumes "py_split L = [t0, t1, t2, t3, t4]"
  shows "token L 0 = Some t0" "token L (Suc 0) = Some t1" "token L 2 = Some t2"
        "token L 3 = Some t3" "token L 4 = Some t4"
  by (simp_all add: token_def assms)

lemma box_edges_Finite:
  "box_edges (Finite s1 cx) (Finite s2 cy) (Finite s3 w) (Finite s4 h) =
     Some (fl_sub (Finite s1 cx) (round_double s3 (w / 2)),
           fl_add (Finite s1 cx) (round_double s3 (w / 2)),
           fl_sub (Finite s2 cy) (round_double s4 (h / 2)),
           fl_add (Finite s2 cy) (round_double s4 (h / 2)))"
  by (simp add: box_edges_def fl_truediv_2)

lemma not_special_Finite: "\<not> isnan x \<Longrightarrow> \<not> isinf x \<Longrightarrow> \<exists>s m. x = Finite s m"
  by (cases x) auto

text \<open>
  The division by the literal 2 never raises, so the handler \<^verbatim>\<open>except Exception\<close> of
  \<^verbatim>\<open>validate_yolo_line\<close> is never entered: the box edges are always computed.
\<close>

lemma fl_truediv_by_2_defined: "\<exists>y. fl_truediv x (fl_int 2) = Some y"
  by (cases x) (simp_all add: fl_int_2)

lemma box_edges_defined: "\<exists>e. box_edges center_x center_y width height = Some e"
proof -
  obtain hw where hw: "fl_truediv width (fl_int 2) = Some hw"
    using fl_truediv_by_2_defined by blast
  obtain hh where hh: "fl_truediv height (fl_int 2) = Some hh"
    using fl_truediv_by_2_defined by blast
  show ?thesis by (simp add: box_edges_def hw hh)
qed

subsection \<open>Rounding is monotone below a grid point\<close>

text \<open>
  Rounding never crosses a grid point: a positive rational below a representable bound
  rounds to a float that is still below the bound. With the error bound of half a unit in
  the last place this shows that edges which lie in [0, 1] as exact real numbers also do
  so when they are computed in binary64.
\<close>

lemma ilog2_mono:
  assumes "0 < a" "a \<le> b"
  shows "ilog2 a \<le> ilog2 b"
proof -
  have b0: "0 < b" using assms by simp
  have "(2::rat) powi ilog2 a \<le> a" using ilog2_bounds(1)[OF assms(1)] .
  also have "a \<le> b" by fact
  also have "b < 2 powi (ilog2 b + 1)" using ilog2_bounds(2)[OF b0] .
  finally have "ilog2 a < ilog2 b + 1" by (simp add: pow2_less_iff)
  then show ?thesis by simp
qed

lemma quantum_mono: "0 < a \<Longrightarrow> a \<le> b \<Longrightarrow> quantum a \<le> quantum b"
  using ilog2_mono[of a b] by (simp add: quantum_def)

lemma quantum_ge: "- 1074 \<le> quantum a"
  by (simp add: quantum_def)

lemma ilog2_pow2: "ilog2 (2 powi k) = k"
  by (rule ilog2_eqI) (simp_all add: pow2_less_iff)

lemma round_half_even_le:
  assumes "x \<le> of_int N"
  shows "round_half_even x \<le> N"
proof -
  have f: "\<lfloor>x\<rfloor> \<le> N" using assms by (simp add: floor_le_iff)
  show ?thesis
  proof (cases "\<lfloor>x\<rfloor> = N")
    case True
    then have "x - of_int \<lfloor>x\<rfloor> \<le> 0" using assms by simp
    then show ?thesis using True by (simp add: round_half_even_def Let_def)
  next
    case False
    then have "\<lfloor>x\<rfloor> + 1 \<le> N" using f by simp
    then show ?thesis by (auto simp: round_half_even_def Let_def)
  qed
qed

lemma round_half_even_ge:
  assumes "of_int N \<le> x"
  shows "N \<le> round_half_even x"
proof -
  have "N \<le> \<lfloor>x\<rfloor>" using assms by (simp add: le_floor_iff)
  then show ?thesis by (auto simp: round_half_even_def Let_def)
qed

lemma round_half_even_upper: "of_int (round_half_even x) \<le> x + 1 / 2"
proof -
  have fl: "of_int \<lfloor>x\<rfloor> \<le> x" by simp
  show ?thesis
  proof (cases "x - of_int \<lfloor>x\<rfloor> < 1 / 2")
    case True
    then have "round_half_even x = \<lfloor>x\<rfloor>" by (simp add: round_half_even_def Let_def)
    then show ?thesis using fl by linarith
  next
    case False
    have "round_half_even x \<le> \<lfloor>x\<rfloor> + 1" by (simp add: round_half_even_def Let_def)
    then have "(of_int (round_half_even x) :: rat) \<le> of_int (\<lfloor>x\<rfloor> + 1)" by (simp only: of_int_le_iff)
    then show ?thesis using False by simp
  qed
qed

lemma round_half_even_nonneg: "0 \<le> x \<Longrightarrow> 0 \<le> round_half_even x"
  using round_half_even_ge[of 0 x] by simp

lemma pow2_add: "(2::rat) powi (m + n) = 2 powi m * 2 powi n"
  by (simp add: power_int_add)

lemma pow2_diff: "(2::rat) powi (m - n) = 2 powi m / 2 powi n"
  by (simp add: power_int_diff)

lemma pow2_nonneg_exp: "0 \<le> k \<Longrightarrow> (2::rat) powi k = of_int (2 ^ nat k)"
  by (simp add: power_int_def)

lemma scaled_less:
  assumes "0 < a"
  shows "a / 2 powi quantum a < 2 powi 53"
proof -
  have "ilog2 a + 1 \<le> quantum a + 53" by (simp add: quantum_def)
  then have "(2::rat) powi (ilog2 a + 1) \<le> 2 powi (quantum a + 53)" by (simp only: pow2_le_iff)
  then have "a < 2 powi (quantum a + 53)" using ilog2_bounds(2)[OF assms] by simp
  then have "a < 2 powi 53 * 2 powi quantum a" by (simp add: pow2_add mult.commute)
  then show ?thesis by (simp add: pos_divide_less_eq)
qed

lemma round_double_Finite:
  assumes "0 < a" and "round_double s a = Finite s' m"
  shows "s' = s" and "m = of_int (round_half_even (a / 2 powi quantum a)) * 2 powi quantum a"
    and "m < 2 powi 1024" and "0 \<le> m"
proof -
  let ?m = "of_int (round_half_even (a / 2 powi quantum a)) * 2 powi quantum a :: rat"
  have "round_double s a = (if 2 powi 1024 \<le> ?m then Infinity s else Finite s ?m)"
    using assms(1) by (simp add: round_double_def Let_def)
  with assms(2) show "s' = s" and m: "m = ?m" and "m < 2 powi 1024"
    by (auto split: if_splits)
  have "0 \<le> a / 2 powi quantum a" using assms(1) by simp
  then have "0 \<le> round_half_even (a / 2 powi quantum a)" by (rule round_half_even_nonneg)
  then show "0 \<le> m" unfolding m by simp
qed

lemma round_double_zero: "round_double s 0 = Finite s 0"
  by (simp add: round_double_def)

lemma on_grid_0: "on_grid 0"
  unfolding on_grid_def by (rule exI[of _ 0]) simp

lemma on_grid_1: "on_grid 1"
proof -
  have "ilog2 1 = 0" by (rule ilog2_eqI) simp_all
  then have q: "quantum 1 = - 52" by (simp add: quantum_def)
  show ?thesis unfolding on_grid_def q by (rule exI[of _ "2 ^ 52"]) simp
qed

lemma round_double_on_grid:
  assumes "0 < a" and "round_double s a = Finite s' m"
  shows "on_grid m"
proof -
  define e where "e = quantum a"
  define N where "N = round_half_even (a / 2 powi e)"
  have m: "m = of_int N * 2 powi e"
    using round_double_Finite(2)[OF assms] by (simp add: N_def e_def)
  have N0: "0 \<le> N" unfolding N_def using assms(1) by (intro round_half_even_nonneg) simp
  have "a / 2 powi e \<le> of_int (2 ^ 53)"
    using scaled_less[OF assms(1)] by (simp add: e_def)
  then have N53: "N \<le> 2 ^ 53" unfolding N_def by (rule round_half_even_le)
  show ?thesis
  proof (cases "N = 0")
    case True
    then show ?thesis by (simp add: m on_grid_0)
  next
    case False
    then have N1: "1 \<le> N" using N0 by simp
    have m0: "0 < m" unfolding m using N1 by simp
    have "(of_int N :: rat) \<le> of_int (2 ^ 53)" using N53 by (simp only: of_int_le_iff)
    then have "m \<le> of_int (2 ^ 53) * 2 powi e"
      unfolding m by (rule mult_right_mono) simp
    then have mle: "m \<le> 2 powi (e + 53)" by (simp add: pow2_add mult.commute)
    have "ilog2 m \<le> ilog2 (2 powi (e + 53))" using m0 mle by (rule ilog2_mono)
    then have il: "ilog2 m \<le> e + 53" by (simp only: ilog2_pow2)
    have e_ge: "- 1074 \<le> e" by (simp add: e_def quantum_ge)
    have qm: "quantum m \<le> e + 1" using il e_ge by (simp add: quantum_def)
    show ?thesis
    proof (cases "quantum m \<le> e")
      case True
      have "(2::rat) powi e = 2 powi (e - quantum m) * 2 powi quantum m"
        by (simp add: pow2_add[symmetric])
      also have "(2::rat) powi (e - quantum m) = of_int (2 ^ nat (e - quantum m))"
        using True by (intro pow2_nonneg_exp) simp
      finally have "m = of_int (N * 2 ^ nat (e - quantum m)) * 2 powi quantum m"
        unfolding m by simp
      then show ?thesis unfolding on_grid_def by blast
    next
      case False
      then have q: "quantum m = e + 1" using qm by simp
      then have "ilog2 m - 52 = e + 1" using e_ge by (simp add: quantum_def max_def split: if_splits)
      then have "ilog2 m = e + 53" by simp
      then have "2 powi (e + 53) \<le> m" using ilog2_bounds(1)[OF m0] by simp
      then have "m = 2 powi (e + 53)" using mle by simp
      also have "\<dots> = of_int (2 ^ 52) * 2 powi (e + 1)"
        using pow2_add[of 52 "e + 1"] by (simp add: add.commute)
      finally show ?thesis unfolding on_grid_def q by blast
    qed
  qed
qed

lemma round_double_le_grid:
  assumes "0 < a" and "a \<le> b" and "on_grid b" and "b < 2 powi 1024"
  shows "\<exists>m. round_double s a = Finite s m \<and> 0 \<le> m \<and> m \<le> b"
proof -
  define qa where "qa = quantum a"
  define qb where "qb = quantum b"
  have q: "qa \<le> qb" unfolding qa_def qb_def using assms(1,2) by (rule quantum_mono)
  from assms(3) obtain N :: int where b: "b = of_int N * 2 powi qb"
    unfolding on_grid_def qb_def by blast
  have "(2::rat) powi qb = 2 powi (qb - qa) * 2 powi qa" by (simp add: pow2_add[symmetric])
  also have "(2::rat) powi (qb - qa) = of_int (2 ^ nat (qb - qa))"
    using q by (intro pow2_nonneg_exp) simp
  finally have b': "b = of_int (N * 2 ^ nat (qb - qa)) * 2 powi qa" unfolding b by simp
  have "a / 2 powi qa \<le> b / 2 powi qa" using assms(2) by (simp add: divide_right_mono)
  also have "b / 2 powi qa = of_int (N * 2 ^ nat (qb - qa))" by (subst b') simp
  finally have "round_half_even (a / 2 powi qa) \<le> N * 2 ^ nat (qb - qa)"
    by (rule round_half_even_le)
  then have "(of_int (round_half_even (a / 2 powi qa)) :: rat) \<le> of_int (N * 2 ^ nat (qb - qa))"
    by (simp only: of_int_le_iff)
  then have "of_int (round_half_even (a / 2 powi qa)) * 2 powi qa \<le>
             of_int (N * 2 ^ nat (qb - qa)) * (2::rat) powi qa"
    by (rule mult_right_mono) simp
  then have le: "of_int (round_half_even (a / 2 powi qa)) * 2 powi qa \<le> b"
    by (simp only: b'[symmetric])
  then have "\<not> 2 powi 1024 \<le> of_int (round_half_even (a / 2 powi qa)) * (2::rat) powi qa"
    using assms(4) by simp
  then have r: "round_double s a = Finite s (of_int (round_half_even (a / 2 powi qa)) * 2 powi qa)"
    using assms(1) by (simp add: round_double_def Let_def qa_def)
  have "0 \<le> of_int (round_half_even (a / 2 powi qa)) * (2::rat) powi qa"
    using round_double_Finite(4)[OF assms(1) r] .
  then show ?thesis using r le by blast
qed

lemma digitpart_digits: "digitpart s = Some ds \<Longrightarrow> \<forall>c \<in> set ds. is_digit c"
proof (induction s arbitrary: ds rule: digitpart.induct)
  case 1
  then show ?case by simp
next
  case (2 c)
  then show ?case by (auto split: if_splits)
next
  case (3 c d cs)
  show ?case
  proof (cases "is_digit c")
    case False
    then show ?thesis using 3(3) by simp
  next
    case True
    show ?thesis
    proof (cases "d = CHR ''_''")
      case True
      with 3(3) \<open>is_digit c\<close> obtain r where r: "digitpart cs = Some r" "ds = c # r" by auto
      then show ?thesis using 3(1)[OF \<open>is_digit c\<close> True r(1)] \<open>is_digit c\<close> by simp
    next
      case False
      with 3(3) \<open>is_digit c\<close> obtain r where r: "digitpart (d # cs) = Some r" "ds = c # r" by auto
      then show ?thesis using 3(2)[OF \<open>is_digit c\<close> False r(1)] \<open>is_digit c\<close> by simp
    qed
  qed
qed

lemma digit_val_nonneg: "is_digit c \<Longrightarrow> 0 \<le> digit_val c"
proof -
  assume "is_digit c"
  then have "CHR ''0'' \<le> c" by (simp add: is_digit_def)
  then have "(of_char (CHR ''0'') :: nat) \<le> of_char c" by (simp only: less_eq_char_def)
  then have "(48::nat) \<le> of_char c" by simp
  then have "int 48 \<le> int (of_char c)" by (simp only: of_nat_le_iff)
  then have "(48::int) \<le> of_char c" by (simp add: of_nat_of_char)
  then show ?thesis by (simp add: digit_val_def)
qed

lemma foldl_digits_nonneg:
  "\<forall>c \<in> set ds. is_digit c \<Longrightarrow> 0 \<le> n \<Longrightarrow> 0 \<le> foldl (\<lambda>n c. 10 * n + digit_val c) n ds"
proof (induction ds arbitrary: n)
  case Nil
  then show ?case by simp
next
  case (Cons c cs)
  have "0 \<le> digit_val c" using Cons.prems(1) by (simp add: digit_val_nonneg)
  then have "0 \<le> 10 * n + digit_val c" using Cons.prems(2) by simp
  then show ?case using Cons.IH[of "10 * n + digit_val c"] Cons.prems(1) by simp
qed

lemma int_of_digits_nonneg: "\<forall>c \<in> set ds. is_digit c \<Longrightarrow> 0 \<le> int_of_digits ds"
  unfolding int_of_digits_def by (rule foldl_digits_nonneg) simp_all

lemma opt_digitpart_digits: "opt_digitpart s = Some ds \<Longrightarrow> \<forall>c \<in> set ds. is_digit c"
proof (cases "s = []")
  case True
  assume "opt_digitpart s = Some ds"
  then have "ds = []" using True by (simp add: opt_digitpart_def)
  then show ?thesis by simp
next
  case False
  assume "opt_digitpart s = Some ds"
  then have "digitpart s = Some ds" using False by (simp add: opt_digitpart_def)
  then show ?thesis by (rule digitpart_digits)
qed

lemma parse_decimal_nonneg:
  assumes "parse_decimal s = Some q"
  shows "0 \<le> q"
proof -
  define mant where "mant = takeWhile (\<lambda>c. \<not> is_exp_mark c) s"
  define rest where "rest = dropWhile (\<lambda>c. \<not> is_exp_mark c) s"
  define ip where "ip = takeWhile (\<lambda>c. c \<noteq> CHR ''.'') mant"
  define fp where "fp = drop 1 (dropWhile (\<lambda>c. c \<noteq> CHR ''.'') mant)"
  define r where "r = (if rest = [] then Some 0 else parse_exponent (drop 1 rest))"
  have eq: "parse_decimal s =
      (if ip = [] \<and> fp = [] then None
       else case (opt_digitpart ip, opt_digitpart fp, r) of
              (Some ipd, Some fpd, Some ex) \<Rightarrow>
                 Some (of_int (int_of_digits (ipd @ fpd)) * 10 powi (ex - int (length fpd)))
            | _ \<Rightarrow> None)"
    unfolding parse_decimal_def Let_def mant_def rest_def ip_def fp_def r_def by (rule refl)
  show ?thesis
  proof (cases "opt_digitpart ip")
    case None
    then show ?thesis using assms unfolding eq by (simp split: if_splits)
  next
    case (Some ipd)
    note i = Some
    show ?thesis
    proof (cases "opt_digitpart fp")
      case None
      then show ?thesis using assms unfolding eq by (simp add: i split: if_splits)
    next
      case (Some fpd)
      note f = Some
      show ?thesis
      proof (cases r)
        case None
        then show ?thesis using assms unfolding eq by (simp add: i f split: if_splits)
      next
        case (Some ex)
        then have q: "q = of_int (int_of_digits (ipd @ fpd)) * 10 powi (ex - int (length fpd))"
          using assms unfolding eq by (simp add: i f split: if_splits)
        have "\<forall>c \<in> set (ipd @ fpd). is_digit c"
          using opt_digitpart_digits[OF i] opt_digitpart_digits[OF f] by auto
        then have "0 \<le> int_of_digits (ipd @ fpd)" by (rule int_of_digits_nonneg)
        then show ?thesis unfolding q by (intro mult_nonneg_nonneg) simp_all
      qed
    qed
  qed
qed

lemma py_float_round_double:
  assumes "py_float t = Some x"
  shows "isnan x \<or> isinf x \<or> (\<exists>neg q. 0 \<le> q \<and> x = round_double neg q)"
proof -
  obtain neg body where tb: "take_sign (num_strip t) = (neg, body)" by (cases "take_sign (num_strip t)")
  define low where "low = map ascii_lower body"
  have eq: "py_float t =
      (if low = ''inf'' \<or> low = ''infinity'' then Some (Infinity neg)
       else if low = ''nan'' then Some NaN
       else case parse_decimal body of None \<Rightarrow> None | Some q \<Rightarrow> Some (round_double neg q))"
    unfolding py_float_def tb low_def Let_def by simp
  show ?thesis
  proof (cases "low = ''inf'' \<or> low = ''infinity''")
    case True
    then have "x = Infinity neg" using assms unfolding eq by simp
    then show ?thesis by simp
  next
    case False
    note ninf = False
    show ?thesis
    proof (cases "low = ''nan''")
      case True
      then have "x = NaN" using assms ninf unfolding eq by simp
      then show ?thesis by simp
    next
      case False
      show ?thesis
      proof (cases "parse_decimal body")
        case None
        then show ?thesis using assms ninf False unfolding eq by simp
      next
        case (Some q)
        then have "x = round_double neg q" using assms ninf False unfolding eq by simp
        then show ?thesis using parse_decimal_nonneg[OF Some] by blast
      qed
    qed
  qed
qed

lemma py_float_Finite:
  assumes "py_float t = Some (Finite s m)"
  shows "0 \<le> m" and "on_grid m" and "m < 2 powi 1024"
proof -
  from py_float_round_double[OF assms] obtain neg q
    where q: "0 \<le> q" and r: "round_double neg q = Finite s m"
    by auto
  have "0 \<le> m \<and> on_grid m \<and> m < 2 powi 1024"
  proof (cases "q = 0")
    case True
    then show ?thesis using r by (simp add: round_double_zero on_grid_0)
  next
    case False
    then have 2: "0 < q" using q by simp
    show ?thesis
      using round_double_Finite(3,4)[OF 2 r] round_double_on_grid[OF 2 r] by simp
  qed
  then show "0 \<le> m" and "on_grid m" and "m < 2 powi 1024" by simp_all
qed

lemma in_unit_Finite: "in_unit (Finite s m) \<longleftrightarrow> 0 \<le> fval s m \<and> fval s m \<le> 1"
  by (simp add: in_unit_def fl_int_0 fl_int_1 fval_def)

lemma pow2_1024_gt_1: "(1::rat) < 2 powi 1024"
  using pow2_less_iff[of 0 1024] by simp

lemma round_double_just_above_1:
  assumes "1 < q" and "q \<le> 1 + 1 / 2 ^ 54"
  shows "round_double s q = Finite s 1"
proof -
  have k: "2 powi 0 \<le> q" "q < 2 powi (0 + 1)" using assms by simp_all
  define x where "x = q / 2 powi (- 52)"
  have x: "x = q * 2 ^ 52" by (simp add: x_def power_int_minus field_simps)
  have lo: "of_int (2 ^ 52) \<le> x" using assms(1) by (simp add: x)
  have "q * 2 ^ 52 \<le> (1 + 1 / 2 ^ 54) * 2 ^ 52" using assms(2) by (rule mult_right_mono) simp
  then have hi: "x \<le> of_int (2 ^ 52) + 1 / 4" by (simp add: x)
  have fl: "\<lfloor>x\<rfloor> = 2 ^ 52" using lo hi by (intro floor_unique) simp_all
  have "x - of_int \<lfloor>x\<rfloor> < 1 / 2" using hi by (simp add: fl)
  then have r: "round_half_even x = 2 ^ 52" by (simp add: round_half_even_def Let_def fl)
  have m: "of_int (round_half_even x) * 2 powi (- 52) = (1::rat)"
    by (simp add: r power_int_minus_divide)
  have e: "max (0 - 52) (- 1074) = (- 52 :: int)" by simp
  have "round_double s q =
          (if 2 powi 1024 \<le> of_int (round_half_even (q / 2 powi (- 52))) * (2::rat) powi (- 52)
           then Infinity s
           else Finite s (of_int (round_half_even (q / 2 powi (- 52))) * 2 powi (- 52)))"
    unfolding round_double_eval[OF k] Let_def e by (rule refl)
  also have "\<dots> = (if (2::rat) powi 1024 \<le> 1 then Infinity s else Finite s 1)"
    unfolding x_def[symmetric] m by (rule refl)
  also have "\<dots> = Finite s 1"
    using pow2_1024_gt_1 by (simp only: not_le[symmetric] if_False)
  finally show ?thesis .
qed

lemma round_double_unit:
  assumes "0 < q" and "q \<le> 1 + 1 / 2 ^ 54"
  shows "\<exists>m. round_double s q = Finite s m \<and> 0 \<le> m \<and> m \<le> 1"
proof (cases "q \<le> 1")
  case True
  show ?thesis using round_double_le_grid[OF assms(1) True on_grid_1 pow2_1024_gt_1] .
next
  case False
  then have "round_double s q = Finite s 1" using assms(2) by (intro round_double_just_above_1) simp_all
  then show ?thesis by simp
qed

lemma round_double_error:
  assumes "0 < a" and "a < 1" and "round_double s a = Finite s h"
  shows "h \<le> a + 1 / 2 ^ 54"
proof -
  define e where "e = quantum a"
  have "(2::rat) powi ilog2 a < 2 powi 0" using ilog2_bounds(1)[OF assms(1)] assms(2) by simp
  then have "ilog2 a < 0" by (simp only: pow2_less_iff)
  then have e53: "e \<le> - 53" by (simp add: e_def quantum_def)
  then have "(2::rat) powi e \<le> 2 powi (- 53)" by (simp only: pow2_le_iff)
  moreover have "(2::rat) powi (- 53) = 1 / 2 ^ 53" by (simp add: power_int_minus_divide)
  ultimately have pe: "(2::rat) powi e \<le> 1 / 2 ^ 53" by (simp only:)
  have h: "h = of_int (round_half_even (a / 2 powi e)) * 2 powi e"
    using round_double_Finite(2)[OF assms(1,3)] by (simp add: e_def)
  have "of_int (round_half_even (a / 2 powi e)) * 2 powi e \<le> (a / 2 powi e + 1 / 2) * (2::rat) powi e"
    using round_half_even_upper[of "a / 2 powi e"] by (rule mult_right_mono) simp
  also have "\<dots> = a + 2 powi e / 2" by (simp add: field_simps)
  also have "\<dots> \<le> a + (1 / 2 ^ 53) / 2" using pe by simp
  finally show ?thesis unfolding h by simp
qed

lemma exact_edges_axis:
  assumes c: "py_float tc = Some (Finite sc c)" and d: "py_float td = Some (Finite sd d)"
    and pos: "0 < fval sd d"
    and lo: "0 \<le> fval sc c - fval sd d / 2"
    and hi: "fval sc c + fval sd d / 2 \<le> 1"
  shows "\<exists>h. fl_truediv (Finite sd d) (fl_int 2) = Some h \<and>
             in_unit (fl_sub (Finite sc c) h) \<and> in_unit (fl_add (Finite sc c) h)"
proof -
  note C = py_float_Finite[OF c] and D = py_float_Finite[OF d]
  have sd: "\<not> sd" using pos D(1) by (auto simp: fval_def)
  have d0: "0 < d" using pos sd by (simp add: fval_def)
  have "0 < fval sc c" using lo pos by linarith
  then have sc: "\<not> sc" using C(1) by (auto simp: fval_def)
  have c0: "0 < c" using \<open>0 < fval sc c\<close> sc by (simp add: fval_def)
  have lo': "d / 2 \<le> c" and hi': "c + d / 2 \<le> 1"
    using lo hi sc sd by (simp_all add: fval_def)
  have a0: "0 < d / 2" using d0 by simp
  obtain h where h: "round_double False (d / 2) = Finite False h" "0 \<le> h" "h \<le> c"
    using round_double_le_grid[OF a0 lo' C(2,3), of False] by blast
  have a1: "d / 2 < 1" using hi' c0 by linarith
  have herr: "h \<le> d / 2 + 1 / 2 ^ 54" using round_double_error[OF a0 a1 h(1)] .
  have tv: "fl_truediv (Finite sd d) (fl_int 2) = Some (Finite False h)"
    using sd by (simp add: fl_truediv_2 h(1))
  have sub: "in_unit (fl_sub (Finite sc c) (Finite False h))"
  proof (cases "c - h = 0")
    case True
    then show ?thesis using sc by (simp add: fl_sub_def fval_def in_unit_Finite)
  next
    case False
    then have q: "0 < c - h" "c - h \<le> 1 + 1 / 2 ^ 54" using h(2,3) hi' a0 by simp_all
    obtain m where m: "round_double False (c - h) = Finite False m" "0 \<le> m" "m \<le> 1"
      using round_double_unit[OF q, of False] by blast
    have "fl_sub (Finite sc c) (Finite False h) = Finite False m"
      using sc False q(1) by (simp add: fl_sub_def fval_def fl_of_rat_def m(1))
    then show ?thesis using m(2,3) by (simp add: in_unit_Finite fval_def)
  qed
  have add: "in_unit (fl_add (Finite sc c) (Finite False h))"
  proof -
    have q: "0 < c + h" "c + h \<le> 1 + 1 / 2 ^ 54" using c0 h(2) herr hi' by simp_all
    obtain m where m: "round_double False (c + h) = Finite False m" "0 \<le> m" "m \<le> 1"
      using round_double_unit[OF q, of False] by blast
    have "fl_add (Finite sc c) (Finite False h) = Finite False m"
      using sc q(1) by (simp add: fval_def fl_of_rat_def m(1))
    then show ?thesis using m(2,3) by (simp add: in_unit_Finite fval_def)
  qed
  show ?thesis using tv sub add by blast
qed

section \<open>The line validator follows the validation sequence\<close>

text \<open>
  On a line that is not blank, \<^verbatim>\<open>validate_yolo_line\<close> returns no finding when no check of the
  sequence is violated, and otherwise the finding of the first violated check: it carries
  the file name and the line number it was given, the stripped line and the reason of
  that check.
\<close>

lemma list5:
  assumes "length xs = 5"
  obtains a b c d e where "xs = [a, b, c, d, e]"
proof -
  from assms obtain a b c d e where "xs = [a, b, c, d, e]"
    by (auto simp: length_Suc_conv eval_nat_numeral)
  then show thesis by (rule that)
qed

lemma validate_yolo_line_sequence:
  assumes "strip l \<noteq> []"
  shows "validate_yolo_line l n f =
           (case first_violation (strip l) of
              None \<Rightarrow> None
            | Some c \<Rightarrow> Some \<lparr>filename = f, line_num = n, line_content = strip l,
                               reason = describe c (strip l)\<rparr>)"
proof -
  define L where "L = strip l"
  have sL: "strip L = L" by (simp add: L_def strip_idem)
  have L0: "L \<noteq> []" using assms by (simp add: L_def)
  have mk: "LabelValidationError f n L r = \<lparr>filename = f, line_num = n, line_content = L, reason = r\<rparr>" for r
    by (simp add: LabelValidationError_def sL)
  note defs = validate_yolo_line_def Let_def L_def[symmetric] mk first_violation_def check_sequence_def
  show ?thesis
  proof (cases "length (py_split L) = 5")
    case False
    then show ?thesis using L0 by (simp add: defs)
  next
    case True
    then obtain t0 t1 t2 t3 t4 where parts: "py_split L = [t0, t1, t2, t3, t4]"
      by (rule list5)
    note tk = token_5[OF parts]
    show ?thesis
    proof (cases "py_int t0")
      case None
      then show ?thesis using L0 by (simp add: defs parts tk)
    next
      case (Some class_id)
      note c = Some
      show ?thesis
      proof (cases "class_id < 0")
        case True
        then show ?thesis using L0 by (simp add: defs parts tk c)
      next
        case False
        note nonneg = False
        show ?thesis
        proof (cases "py_float t1")
          case None
          then show ?thesis using L0 nonneg by (simp add: defs parts tk c)
        next
          case (Some center_x)
          note f1 = Some
          show ?thesis
          proof (cases "py_float t2")
            case None
            then show ?thesis using L0 nonneg by (simp add: defs parts tk c f1)
          next
            case (Some center_y)
            note f2 = Some
            show ?thesis
            proof (cases "py_float t3")
              case None
              then show ?thesis using L0 nonneg by (simp add: defs parts tk c f1 f2)
            next
              case (Some width)
              note f3 = Some
              show ?thesis
              proof (cases "py_float t4")
                case None
                then show ?thesis using L0 nonneg by (simp add: defs parts tk c f1 f2 f3)
              next
                case (Some height)
                note f4 = Some
                note fl = f1 f2 f3 f4
                have co: "coord L (Suc 0) = Some center_x" "coord L 2 = Some center_y"
                   "coord L 3 = Some width" "coord L 4 = Some height"
                  by (simp_all add: coord_def tk fl)
                have loop: "nan_inf_loop (enumerate_from 0 [center_x, center_y, width, height]) =
                    (if isnan center_x then Some ''center_x is NaN''
                     else if isinf center_x then Some ''center_x is Infinity''
                     else if isnan center_y then Some ''center_y is NaN''
                     else if isinf center_y then Some ''center_y is Infinity''
                     else if isnan width then Some ''width is NaN''
                     else if isinf width then Some ''width is Infinity''
                     else if isnan height then Some ''height is NaN''
                     else if isinf height then Some ''height is Infinity''
                     else None)"
                  by (simp add: coord_names_def)
                have cs: "coords L = [Some center_x, Some center_y, Some width, Some height]"
                  by (simp add: coords_def co)
                show ?thesis
                proof (cases "list_ex special (coords L)")
                  case True
                  have d: "describe Nan_or_infinity L =
                      the (nan_inf_loop (enumerate_from 0 [center_x, center_y, width, height]))"
                    using True unfolding loop by (auto simp add: cs special_def coord_names_def)
                  have v: "nan_inf_loop (enumerate_from 0 [center_x, center_y, width, height]) \<noteq> None"
                    using True unfolding loop by (auto simp add: cs special_def)
                  show ?thesis using L0 nonneg True v
                    by (auto simp add: defs parts tk c fl d simp del: describe.simps nan_inf_loop.simps enumerate_from.simps)
                next
                  case False
                  then obtain s1 cx s2 cy s3 w s4 h where
                    fin: "center_x = Finite s1 cx" "center_y = Finite s2 cy"
                         "width = Finite s3 w" "height = Finite s4 h"
                    using not_special_Finite[of center_x] not_special_Finite[of center_y]
                      not_special_Finite[of width] not_special_Finite[of height]
                    by (auto simp: cs special_def)
                  have loopN: "nan_inf_loop (enumerate_from 0 [center_x, center_y, width, height]) = None"
                    unfolding loop by (simp add: fin)
                  define x_min where "x_min = fl_sub center_x (round_double s3 (w / 2))"
                  define x_max where "x_max = fl_add center_x (round_double s3 (w / 2))"
                  define y_min where "y_min = fl_sub center_y (round_double s4 (h / 2))"
                  define y_max where "y_max = fl_add center_y (round_double s4 (h / 2))"
                  have nn: "\<not> isnan x_min" "\<not> isnan x_max" "\<not> isnan y_min" "\<not> isnan y_max"
                    by (simp_all add: x_min_def x_max_def y_min_def y_max_def fin
                          isnan_fl_sub_Finite isnan_fl_add_Finite isnan_round_double)
                  have be: "box_edges center_x center_y width height = Some (x_min, x_max, y_min, y_max)"
                    by (simp add: fin box_edges_Finite x_min_def x_max_def y_min_def y_max_def)
                  have ed: "edge_minus L (Suc 0) 3 = Some x_min" "edge_plus L (Suc 0) 3 = Some x_max"
                           "edge_minus L 2 4 = Some y_min" "edge_plus L 2 4 = Some y_max"
                    by (simp_all add: edge_minus_def edge_plus_def co fin fl_truediv_2
                          x_min_def x_max_def y_min_def y_max_def)
                  have cmp: "fl_lt x_min (Finite False 0) \<longleftrightarrow> \<not> fl_le (Finite False 0) x_min"
                            "fl_lt (Finite False 1) x_max \<longleftrightarrow> \<not> fl_le x_max (Finite False 1)"
                            "fl_lt y_min (Finite False 0) \<longleftrightarrow> \<not> fl_le (Finite False 0) y_min"
                            "fl_lt (Finite False 1) y_max \<longleftrightarrow> \<not> fl_le y_max (Finite False 1)"
                    using nn by (simp_all add: fl_lt_iff_not_le)
                  have vs: "\<not> violated Token_count L" "\<not> violated Class_id L"
                           "\<not> violated Float_parse L" "\<not> violated Nan_or_infinity L"
                    using nonneg False by (simp_all add: parts tk c fl)
                  have w1: "violated Width_positive L \<longleftrightarrow> fl_le width (fl_int 0)"
                    and h1: "violated Height_positive L \<longleftrightarrow> fl_le height (fl_int 0)"
                    and x1: "violated Center_x_range L \<longleftrightarrow> fl_lt center_x (fl_int 0) \<or> fl_gt center_x (fl_int 1)"
                    and y1: "violated Center_y_range L \<longleftrightarrow> fl_lt center_y (fl_int 0) \<or> fl_gt center_y (fl_int 1)"
                    by (auto simp add: co fin fl_int_0 fl_int_1 fl_gt_def in_unit_def)
                  have e1: "violated X_min_edge L \<longleftrightarrow> fl_lt x_min (fl_int 0)"
                    and e2: "violated X_max_edge L \<longleftrightarrow> fl_gt x_max (fl_int 1)"
                    and e3: "violated Y_min_edge L \<longleftrightarrow> fl_lt y_min (fl_int 0)"
                    and e4: "violated Y_max_edge L \<longleftrightarrow> fl_gt y_max (fl_int 1)"
                    by (simp_all add: ed fl_int_0 fl_int_1 fl_gt_def cmp)
                  have ds: "describe Width_positive L = ''width must be > 0, found: '' @ repr_float width"
                    "describe Height_positive L = ''height must be > 0, found: '' @ repr_float height"
                    "describe Center_x_range L = ''center_x must be in [0, 1], found: '' @ repr_float center_x"
                    "describe Center_y_range L = ''center_y must be in [0, 1], found: '' @ repr_float center_y"
                    "describe X_min_edge L = ''Bounding box exceeds left edge: x_min='' @ fmt_6f x_min @ '' < 0''"
                    "describe X_max_edge L = ''Bounding box exceeds right edge: x_max='' @ fmt_6f x_max @ '' > 1''"
                    "describe Y_min_edge L = ''Bounding box exceeds top edge: y_min='' @ fmt_6f y_min @ '' < 0''"
                    "describe Y_max_edge L = ''Bounding box exceeds bottom edge: y_max='' @ fmt_6f y_max @ '' > 1''"
                    by (simp_all add: co ed)
                  show ?thesis using L0 nonneg
                    by (simp add: defs parts c fl loopN be vs w1 h1 x1 y1 e1 e2 e3 e4 ds
                          del: describe.simps violated.simps nan_inf_loop.simps enumerate_from.simps)
                qed
              qed
            qed
          qed
        qed
      qed
    qed
  qed
qed

lemma validate_yolo_line_blank: "strip l = [] \<Longrightarrow> validate_yolo_line l n f = None"
  by (simp add: validate_yolo_line_def)

lemma validate_yolo_line_Some:
  assumes "validate_yolo_line l n f = Some e"
  shows "strip l \<noteq> []" "filename e = f" "line_num e = n" "line_content e = strip l"
    "\<exists>c. first_violation (strip l) = Some c \<and> reason e = describe c (strip l)"
proof -
  show nb: "strip l \<noteq> []" using assms validate_yolo_line_blank by fastforce
  note S = validate_yolo_line_sequence[OF nb, of n f]
  from assms S show "filename e = f" "line_num e = n" "line_content e = strip l"
    "\<exists>c. first_violation (strip l) = Some c \<and> reason e = describe c (strip l)"
    by (auto split: option.splits)
qed

lemma validate_yolo_line_transfer:
  "validate_yolo_line l n f =
     map_option (\<lambda>e. e\<lparr>filename := f, line_num := n\<rparr>) (validate_yolo_line l n' f')"
proof (cases "strip l = []")
  case True
  then show ?thesis by (simp add: validate_yolo_line_blank)
next
  case False
  show ?thesis
    by (simp add: validate_yolo_line_sequence[OF False] split: option.splits)
qed

text \<open>
  The reason of a violated check is not empty, and it names its check: the descriptions
  of two different checks never coincide.
\<close>

lemma find_Some_in_set: "find P xs = Some x \<Longrightarrow> x \<in> set xs"
  by (induction xs) (auto split: if_splits)

lemma describe_head:
  "describe c L = [] \<or>
   take 22 (describe c L) \<in> set
     (case c of
        Token_count \<Rightarrow> [''Expected exactly 5 val'']
      | Class_id \<Rightarrow> [''class_id must be integ'', ''class_id must be non-n'']
      | Float_parse \<Rightarrow> [''Invalid numeric value:'']
      | Nan_or_infinity \<Rightarrow>
          [''center_x is NaN'', ''center_x is Infinity'', ''center_y is NaN'', ''center_y is Infinity'',
           ''width is NaN'', ''width is Infinity'', ''height is NaN'', ''height is Infinity'']
      | Width_positive \<Rightarrow> [''width must be > 0, fou'']
      | Height_positive \<Rightarrow> [''height must be > 0, fo'']
      | Center_x_range \<Rightarrow> [''center_x must be in [0'']
      | Center_y_range \<Rightarrow> [''center_y must be in [0'']
      | X_min_edge \<Rightarrow> [''Bounding box exceeds l'']
      | X_max_edge \<Rightarrow> [''Bounding box exceeds r'']
      | Y_min_edge \<Rightarrow> [''Bounding box exceeds t'']
      | Y_max_edge \<Rightarrow> [''Bounding box exceeds b''])"
proof (cases c)
  case Nan_or_infinity
  show ?thesis
  proof (cases "find (\<lambda>(nm, c). special c) (zip coord_names (coords L))")
    case None
    then show ?thesis by (simp add: Nan_or_infinity)
  next
    case (Some p)
    then have "p \<in> set (zip coord_names (coords L))"
      by (rule find_Some_in_set)
    then have "fst p \<in> set coord_names" by (metis in_set_zipE prod.collapse)
    then show ?thesis using Some
      by (cases p; cases "snd p") (auto simp: Nan_or_infinity coord_names_def)
  qed
qed (auto split: option.splits)

lemma describe_determines_check:
  assumes "describe c L = describe c' L'" and "describe c L \<noteq> []"
  shows "c = c'"
proof -
  have 1: "take 22 (describe c L) = take 22 (describe c' L')" using assms(1) by simp
  show ?thesis
    using describe_head[of c L] describe_head[of c' L'] assms 1
    by (cases c; cases c'; simp; auto)
qed

lemma find_list_ex: "list_ex P xs \<Longrightarrow> \<exists>x. find P xs = Some x \<and> P x"
  by (induction xs) auto

lemma describe_violated_nonempty:
  assumes "violated c L" and "c = Class_id \<longrightarrow> \<not> violated Token_count L"
  shows "describe c L \<noteq> []"
proof (cases c)
  case Class_id
  with assms(2) have "length (py_split L) = 5" by simp
  then have "token L 0 \<noteq> None" by (auto simp add: token_def Let_def)
  then show ?thesis by (auto simp: Class_id split: option.splits)
next
  case Float_parse
  then obtain t where "find (\<lambda>t. py_float t = None) (take 4 (drop 1 (py_split L))) = Some t"
    using assms(1) find_list_ex[of "\<lambda>t. py_float t = None"] by auto
  then show ?thesis by (simp add: Float_parse)
next
  case Nan_or_infinity
  then have "list_ex (\<lambda>(nm, c). special c) (zip coord_names (coords L))"
    using assms(1) by (auto simp: coords_def coord_names_def)
  then obtain p where p: "find (\<lambda>(nm, c). special c) (zip coord_names (coords L)) = Some p"
    "(\<lambda>(nm, c). special c) p"
    using find_list_ex by blast
  then obtain nm x where "p = (nm, Some x)"
    by (cases p; cases "snd p") (auto simp: special_def)
  then show ?thesis using p(1) by (simp add: Nan_or_infinity)
qed (use assms(1) in \<open>auto split: option.splits\<close>)

lemma first_violation_describe_nonempty:
  assumes "first_violation L = Some c"
  shows "describe c L \<noteq> []"
proof -
  from assms have v: "violated c L"
    unfolding first_violation_def by (auto simp: find_Some_iff)
  have "\<not> violated Token_count L" if "c = Class_id"
    using assms that by (auto simp: first_violation_def check_sequence_def split: if_splits)
  then show ?thesis using describe_violated_nonempty[OF v] by blast
qed

section \<open>Properties of the file validator and the scanner\<close>

lemma set_validate_lines:
  "e \<in> set (validate_lines fname xs errors) \<longleftrightarrow>
     e \<in> set errors \<or> (\<exists>k l. (k, l) \<in> set xs \<and> validate_yolo_line l k fname = Some e)"
proof (induction xs arbitrary: errors)
  case Nil
  then show ?case by simp
next
  case (Cons x xs)
  obtain k l where x: "x = (k, l)" by (cases x)
  show ?case
  proof (cases "validate_yolo_line l k fname")
    case None
    then show ?thesis using Cons.IH[of errors] by (auto simp: x)
  next
    case (Some err)
    then show ?thesis using Cons.IH[of "errors @ [err]"] by (auto simp: x)
  qed
qed

lemma enumerate_from_nth:
  "i < length xs \<Longrightarrow> enumerate_from n xs ! i = (n + int i, xs ! i)"
  by (induction xs arbitrary: n i) (auto simp: nth_Cons split: nat.splits)

lemma length_enumerate_from: "length (enumerate_from n xs) = length xs"
  by (induction xs arbitrary: n) auto

lemma in_enumerate_from:
  "(k, l) \<in> set (enumerate_from n xs) \<longleftrightarrow> (\<exists>i < length xs. k = n + int i \<and> l = xs ! i)"
  by (auto simp: in_set_conv_nth length_enumerate_from enumerate_from_nth)

lemma in_validate_label_file_Decoded:
  assumes "opened path = Decoded text"
  shows "e \<in> set (validate_label_file path) \<longleftrightarrow>
           (\<exists>i < length (readlines text).
              validate_yolo_line (readlines text ! i) (1 + int i) (name path) = Some e)"
proof (cases "readlines text = []")
  case True
  then show ?thesis by (simp add: validate_label_file_def assms)
next
  case False
  then show ?thesis
    by (auto simp: validate_label_file_def assms Let_def set_validate_lines in_enumerate_from)
qed

lemma scan_files_all_errors:
  "all_errors (scan_files fs st) = all_errors st @ concat (map validate_label_file fs)"
  by (induction fs arbitrary: st) (auto simp: scan_file_def Let_def split: option.splits)

lemma scan_files_total_files:
  "total_files (scan_files fs st) = total_files st + int (length fs)"
  by (induction fs arbitrary: st) (auto simp: scan_file_def Let_def split: option.splits)

lemma count_lines_nonblank:
  "(case count_lines path of Some k \<Rightarrow> k | None \<Rightarrow> 0) = nonblank_lines path"
  by (simp add: count_lines_def nonblank_lines_def split: read_result.splits)

lemma scan_file_total_lines:
  "total_lines (scan_file path st) = total_lines st + nonblank_lines path"
  by (auto simp: scan_file_def Let_def count_lines_nonblank[symmetric] split: option.splits)

lemma scan_files_total_lines:
  "total_lines (scan_files fs st) = total_lines st + sum_list (map nonblank_lines fs)"
  by (induction fs arbitrary: st) (simp_all add: scan_file_total_lines)

lemma scan_files_printed: "printed (scan_files fs st) = printed st"
  by (induction fs arbitrary: st) (auto simp: scan_file_def Let_def split: option.splits)

lemma scan_split_all_errors:
  "all_errors (scan_split ds split st) =
     all_errors st @ concat (map validate_label_file (split_files ds split))"
  by (simp add: scan_split_def split_files_def Let_def scan_files_all_errors split: option.splits)

lemma scan_split_total_files:
  "total_files (scan_split ds split st) = total_files st + int (length (split_files ds split))"
  by (simp add: scan_split_def split_files_def Let_def scan_files_total_files split: option.splits)

lemma scan_split_total_lines:
  "total_lines (scan_split ds split st) =
     total_lines st + sum_list (map nonblank_lines (split_files ds split))"
  by (simp add: scan_split_def split_files_def Let_def scan_files_total_lines split: option.splits)

lemma scan_dataset_all_errors:
  "all_errors (scan_dataset ds) = concat (map validate_label_file (scanned_files ds))"
  by (simp add: scan_dataset_def scanned_files_def scan_split_all_errors)

lemma scan_dataset_total_files:
  "total_files (scan_dataset ds) = int (length (scanned_files ds))"
  by (simp add: scan_dataset_def scanned_files_def scan_split_total_files)

lemma scan_dataset_total_lines:
  "total_lines (scan_dataset ds) = sum_list (map nonblank_lines (scanned_files ds))"
  by (simp add: scan_dataset_def scanned_files_def scan_split_total_lines)

section \<open>Evaluation on concrete lines\<close>

text \<open>
  The two example lines of the specification, evaluated step by step: the box of width 0.2
  around the centre, and the box of width 1.2, which leaves the image on both sides.
\<close>

lemma str_nat_numeral:
  "str_nat (numeral k) =
     (if (numeral k :: nat) < 10 then [digit_char (numeral k)]
      else str_nat (numeral k div 10) @ [digit_char (numeral k mod 10)])"
  by (rule str_nat.simps)

lemma str_nat_0: "str_nat 0 = ''0''"
  by code_simp

lemma str_nat_1: "str_nat (Suc 0) = ''1''"
  by code_simp

lemma digit_char_simps:
  "digit_char 0 = CHR ''0''" "digit_char (Suc 0) = CHR ''1''" "digit_char 2 = CHR ''2''"
  "digit_char 3 = CHR ''3''" "digit_char 4 = CHR ''4''" "digit_char 5 = CHR ''5''"
  "digit_char 6 = CHR ''6''" "digit_char 7 = CHR ''7''" "digit_char 8 = CHR ''8''"
  "digit_char 9 = CHR ''9''"
  by code_simp+

lemmas str_nat_eval = str_nat_numeral str_nat_0 str_nat_1 digit_char_simps


lemma py_float_decimal:
  assumes "take_sign (num_strip s) = (neg, body)"
    and "map ascii_lower body \<noteq> ''inf''" "map ascii_lower body \<noteq> ''infinity''"
    and "map ascii_lower body \<noteq> ''nan''"
    and "parse_decimal body = Some q"
  shows "py_float s = Some (round_double neg q)"
  using assms by (simp add: py_float_def)

lemma round_double_1_2: "round_double False (1 / 2) = Finite False (1 / 2)"
  by (subst round_double_eval[where k="- 1"]) (simp_all add: rhe_eval Let_def)

lemma round_double_6_5:
  "round_double False (6 / 5) = Finite False (5404319552844595 / 4503599627370496)"
  by (subst round_double_eval[where k=0]) (simp_all add: rhe_eval Let_def)

lemma round_double_1_5:
  "round_double False (1 / 5) = Finite False (3602879701896397 / 18014398509481984)"
  by (subst round_double_eval[where k="- 3"]) (simp_all add: rhe_eval Let_def)

lemma py_float_0_5: "py_float ''0.5'' = Some (Finite False (1 / 2))"
proof -
  have "py_float ''0.5'' = Some (round_double False (1 / 2))"
    by (rule py_float_decimal[where body="''0.5''"]; code_simp)
  then show ?thesis by (simp only: round_double_1_2)
qed

lemma py_float_1_2: "py_float ''1.2'' = Some (Finite False (5404319552844595 / 4503599627370496))"
proof -
  have "py_float ''1.2'' = Some (round_double False (6 / 5))"
    by (rule py_float_decimal[where body="''1.2''"]; code_simp)
  then show ?thesis by (simp only: round_double_6_5)
qed

lemma py_float_0_2: "py_float ''0.2'' = Some (Finite False (3602879701896397 / 18014398509481984))"
proof -
  have "py_float ''0.2'' = Some (round_double False (1 / 5))"
    by (rule py_float_decimal[where body="''0.2''"]; code_simp)
  then show ?thesis by (simp only: round_double_1_5)
qed

lemma py_int_0: "py_int ''0'' = Some 0"
  by code_simp

lemma strip_wide_box: "strip ''0 0.5 0.5 1.2 0.2'' = ''0 0.5 0.5 1.2 0.2''"
  by code_simp

lemma split_wide_box: "py_split ''0 0.5 0.5 1.2 0.2'' = [''0'', ''0.5'', ''0.5'', ''1.2'', ''0.2'']"
  by code_simp

lemma strip_small_box: "strip ''0 0.5 0.5 0.2 0.2'' = ''0 0.5 0.5 0.2 0.2''"
  by code_simp

lemma split_small_box: "py_split ''0 0.5 0.5 0.2 0.2'' = [''0'', ''0.5'', ''0.5'', ''0.2'', ''0.2'']"
  by code_simp

text \<open>Half of the width 1.2 is exact; the left edge \<open>0.5 - 0.6\<close> is exact as well.\<close>

lemma half_of_1_2:
  "round_double False (5404319552844595 / 9007199254740992) =
     Finite False (5404319552844595 / 9007199254740992)"
  by (subst round_double_eval[where k="- 1"]) (simp_all add: rhe_eval Let_def)

lemma left_edge_wide_box:
  "fl_sub (Finite False (1 / 2)) (Finite False (5404319552844595 / 9007199254740992)) =
     Finite True (900719925474099 / 9007199254740992)"
proof -
  have "round_double True (900719925474099 / 9007199254740992) =
          Finite True (900719925474099 / 9007199254740992)"
    by (subst round_double_eval[where k="- 4"]) (simp_all add: rhe_eval Let_def)
  then show ?thesis by (simp add: fl_sub_def fval_def fl_of_rat_def)
qed

lemma right_edge_wide_box:
  "fl_of_rat (9907919180215091 / 9007199254740992) =
     Finite False (2476979795053773 / 2251799813685248)"
proof -
  have "round_double False (9907919180215091 / 9007199254740992) =
          Finite False (2476979795053773 / 2251799813685248)"
    by (subst round_double_eval[where k=0]) (simp_all add: rhe_eval Let_def)
  then show ?thesis by (simp add: fl_of_rat_def)
qed

lemma fmt_left_edge_wide_box:
  "fmt_6f (Finite True (900719925474099 / 9007199254740992)) = ''-0.100000''"
  by (simp add: fmt_6f_def rhe_eval Let_def str_nat_eval)

lemma fmt_right_edge_wide_box:
  "fmt_6f (Finite False (2476979795053773 / 2251799813685248)) = ''1.100000''"
  by (simp add: fmt_6f_def rhe_eval Let_def str_nat_eval)

lemma half_of_0_2:
  "round_double False (3602879701896397 / 36028797018963968) =
     Finite False (3602879701896397 / 36028797018963968)"
  by (subst round_double_eval[where k="- 4"]) (simp_all add: rhe_eval Let_def)

lemma lower_edge_small_box:
  "fl_sub (Finite False (1 / 2)) (Finite False (3602879701896397 / 36028797018963968)) =
     Finite False (3602879701896397 / 9007199254740992)"
proof -
  have "round_double False (14411518807585587 / 36028797018963968) =
          Finite False (3602879701896397 / 9007199254740992)"
    by (subst round_double_eval[where k="- 2"]) (simp_all add: rhe_eval Let_def)
  then show ?thesis by (simp add: fl_sub_def fval_def fl_of_rat_def)
qed

lemma upper_edge_small_box:
  "fl_of_rat (21617278211378381 / 36028797018963968) =
     Finite False (5404319552844595 / 9007199254740992)"
proof -
  have "round_double False (21617278211378381 / 36028797018963968) =
          Finite False (5404319552844595 / 9007199254740992)"
    by (subst round_double_eval[where k="- 1"]) (simp_all add: rhe_eval Let_def)
  then show ?thesis by (simp add: fl_of_rat_def)
qed

lemmas example_eval =
  py_int_0 py_float_0_5 py_float_1_2 py_float_0_2 fl_int_0 fl_int_1
  box_edges_Finite half_of_1_2 half_of_0_2 left_edge_wide_box right_edge_wide_box
  lower_edge_small_box upper_edge_small_box fmt_left_edge_wide_box fmt_right_edge_wide_box
  fval_def fl_gt_def

lemma wide_box_finding:
  "validate_yolo_line ''0 0.5 0.5 1.2 0.2'' n f =
     Some \<lparr>filename = f, line_num = n, line_content = ''0 0.5 0.5 1.2 0.2'',
           reason = ''Bounding box exceeds left edge: x_min=-0.100000 < 0''\<rparr>"
  by (simp add: validate_yolo_line_def Let_def strip_wide_box split_wide_box
        LabelValidationError_def example_eval)

lemma small_box_valid: "validate_yolo_line ''0 0.5 0.5 0.2 0.2'' n f = None"
  by (simp add: validate_yolo_line_def Let_def strip_small_box split_small_box
        LabelValidationError_def example_eval)

subsection \<open>The digit limit of \<^verbatim>\<open>int\<close>\<close>

text \<open>
  A class id of more than \<open>max_str_digits\<close> digits is not an integer for \<^verbatim>\<open>int\<close>: the
  line validator answers a line of five tokens that starts with one with the finding of
  the class id check, whatever the four coordinate tokens are.
\<close>

lemma class_id_not_integer:
  assumes "py_split (strip line) = [t1, t2, t3, t4, t5]" and "py_int t1 = None"
  shows "validate_yolo_line line n f =
           Some \<lparr>filename = f, line_num = n, line_content = strip line,
                 reason = ''class_id must be integer, found: '' @ [CHR 0x27] @ t1 @ [CHR 0x27]\<rparr>"
proof -
  have nb: "strip line \<noteq> []" using assms(1) by (auto simp: py_split_def)
  show ?thesis
    using nb by (simp add: validate_yolo_line_def assms LabelValidationError_def strip_idem Let_def)
qed

lemma is_digit_not_underscore: "is_digit c \<Longrightarrow> c \<noteq> CHR ''_''"
  by (auto simp: is_digit_def)

lemma digitpart_replicate:
  assumes "is_digit c"
  shows "digitpart (replicate (Suc n) c) = Some (replicate (Suc n) c)"
proof (induction n)
  case 0
  show ?case using assms by simp
next
  case (Suc n)
  have "digitpart (c # c # replicate n c) = map_option (Cons c) (digitpart (c # replicate n c))"
    using assms is_digit_not_underscore[OF assms] by simp
  then show ?case using Suc by simp
qed

lemma is_digit_not_num_space: "is_digit c \<Longrightarrow> \<not> num_space c"
  by (cases c) (auto simp: is_digit_def num_space_def Let_def less_eq_char_def)

lemma num_strip_replicate:
  assumes "\<not> num_space c"
  shows "num_strip (replicate n c) = replicate n c"
proof -
  have d: "dropWhile num_space (replicate n c) = replicate n c"
    using assms by (cases n) simp_all
  show ?thesis using assms by (simp add: num_strip_def d)
qed

lemma py_int_digit_limit:
  assumes "is_digit c" and "max_str_digits < n"
  shows "py_int (replicate n c) = None"
proof -
  obtain k where n: "n = Suc k" using assms(2) by (cases n) simp_all
  have sg: "c \<noteq> CHR ''-'' \<and> c \<noteq> CHR ''+''" using assms(1) by (auto simp: is_digit_def)
  have ts: "take_sign (replicate n c) = (False, replicate n c)"
    using sg by (simp add: n)
  have dp: "digitpart (replicate n c) = Some (replicate n c)"
    unfolding n by (rule digitpart_replicate[OF assms(1)])
  show ?thesis
    using assms(2)
    by (simp add: py_int_def num_strip_replicate[OF is_digit_not_num_space[OF assms(1)]] ts dp)
qed

lemma split_from_replicate:
  assumes "\<not> isspace c"
  shows "split_from (replicate n c @ rest) cur = split_from rest (replicate n c @ cur)"
proof (induction n arbitrary: cur)
  case 0
  show ?case by simp
next
  case (Suc n)
  have "split_from (replicate (Suc n) c @ rest) cur = split_from (replicate n c @ rest) (c # cur)"
    using assms by simp
  also have "\<dots> = split_from rest (replicate n c @ c # cur)" by (rule Suc)
  also have "replicate n c @ c # cur = replicate (Suc n) c @ cur"
    by (simp add: replicate_app_Cons_same)
  finally show ?case .
qed

lemma strip_long_class_id:
  "strip (replicate (Suc k) CHR ''1'' @ '' 0.5 0.5 0.2 0.2'') =
     replicate (Suc k) CHR ''1'' @ '' 0.5 0.5 0.2 0.2''"
  by (simp add: strip_def lstrip_def rstrip_def isspace_def)

lemma split_long_class_id:
  "py_split (replicate (Suc k) CHR ''1'' @ '' 0.5 0.5 0.2 0.2'') =
     [replicate (Suc k) CHR ''1'', ''0.5'', ''0.5'', ''0.2'', ''0.2'']"
proof -
  have ns: "\<not> isspace CHR ''1''" by (simp add: isspace_def)
  have "py_split (replicate (Suc k) CHR ''1'' @ '' 0.5 0.5 0.2 0.2'') =
          split_from '' 0.5 0.5 0.2 0.2'' (replicate (Suc k) CHR ''1'' @ [])"
    unfolding py_split_def by (rule split_from_replicate[OF ns])
  also have "\<dots> = replicate (Suc k) CHR ''1'' # split_from ''0.5 0.5 0.2 0.2'' []"
    by (simp add: isspace_def del: replicate.simps)
  also have "split_from ''0.5 0.5 0.2 0.2'' [] = [''0.5'', ''0.5'', ''0.2'', ''0.2'']"
    by code_simp
  finally show ?thesis .
qed

lemma long_class_id_finding:
  assumes "max_str_digits \<le> k"
  shows "validate_yolo_line (replicate (Suc k) CHR ''1'' @ '' 0.5 0.5 0.2 0.2'') n f =
     Some \<lparr>filename = f, line_num = n,
           line_content = replicate (Suc k) CHR ''1'' @ '' 0.5 0.5 0.2 0.2'',
           reason = ''class_id must be integer, found: '' @ [CHR 0x27] @
                    replicate (Suc k) CHR ''1'' @ [CHR 0x27]\<rparr>"
proof -
  have lim: "max_str_digits < Suc k" using assms by simp
  have pi: "py_int (replicate (Suc k) CHR ''1'') = None"
    by (rule py_int_digit_limit[OF _ lim]) (simp add: is_digit_def)
  show ?thesis
    by (simp add: validate_yolo_line_def strip_long_class_id split_long_class_id pi
          LabelValidationError_def strip_idem Let_def del: replicate.simps)
qed

subsection \<open>A tie between two shortest decimals\<close>

text \<open>
  The float \<open>-114791/131072\<close> is \<open>-0.87578582763671875\<close>: no decimal of fewer than 16
  digits reads back as it, and the two decimals of 16 digits next to it, which end in 87 and
  in 88, both do and are equally near. \<^verbatim>\<open>repr\<close> prints the even one, and so does the finding
  of the line validator for a centre of that value.
\<close>

lemma floor_numeral_frac: "\<lfloor>(numeral a / numeral b :: rat)\<rfloor> = numeral a div numeral b"
  using floor_divide_of_int_eq[of "numeral a" "numeral b", where ?'a = rat] by simp

lemma round_double_half_binade:
  assumes "1 / 2 \<le> a" and "a < 1"
  shows "round_double s a =
           Finite s (of_int (round_half_even (a * 9007199254740992)) / 9007199254740992)"
proof -
  have b: "2 powi (- 1) \<le> a" "a < 2 powi (- 1 + 1)" using assms by simp_all
  have p: "(2::rat) powi (- 53) = 1 / 9007199254740992" by (simp add: power_int_minus_divide)
  have a0: "0 < a" using assms(1) by simp
  obtain m where m: "round_double s a = Finite s m"
    using round_double_unit[OF a0, of s] assms(2) by auto
  have "m = of_int (round_half_even (a / 2 powi quantum a)) * 2 powi quantum a"
    by (rule round_double_Finite(2)[OF a0 m])
  moreover have "quantum a = - 53" using quantum_eqI[OF b] by simp
  ultimately have "m = of_int (round_half_even (a * 9007199254740992)) / 9007199254740992"
    by (simp add: p)
  then show ?thesis using m by simp
qed

lemma ilog10_tie: "ilog10 (114791 / 131072) = - 1"
proof -
  have "ilog2 (114791 / 131072 :: rat) = - 1" by (rule ilog2_eqI) simp_all
  then show ?thesis by (simp add: ilog10_def Let_def)
qed

lemma digits_at_tie_short:
  "digits_at (114791 / 131072) (- 1) (Suc 0) = None"
  "digits_at (114791 / 131072) (- 1) 2 = None"
  "digits_at (114791 / 131072) (- 1) 3 = None"
  "digits_at (114791 / 131072) (- 1) 4 = None"
  "digits_at (114791 / 131072) (- 1) 5 = None"
  "digits_at (114791 / 131072) (- 1) 6 = None"
  "digits_at (114791 / 131072) (- 1) 7 = None"
  "digits_at (114791 / 131072) (- 1) 8 = None"
  "digits_at (114791 / 131072) (- 1) 9 = None"
  "digits_at (114791 / 131072) (- 1) 10 = None"
  "digits_at (114791 / 131072) (- 1) 11 = None"
  "digits_at (114791 / 131072) (- 1) 12 = None"
  "digits_at (114791 / 131072) (- 1) 13 = None"
  "digits_at (114791 / 131072) (- 1) 14 = None"
  "digits_at (114791 / 131072) (- 1) 15 = None"
  by (simp_all add: digits_at_def Let_def round_double_half_binade rhe_eval floor_numeral_frac)

lemma digits_at_tie_16:
  "digits_at (114791 / 131072) (- 1) 16 = Some 8757858276367188"
  by (simp add: digits_at_def Let_def round_double_half_binade rhe_eval floor_numeral_frac)

lemma precisions: "[Suc 0 ..< 18] = [Suc 0, 2, 3, 4, 5, 6, 7, 8, 9, 10, 11, 12, 13, 14, 15, 16, 17 :: nat]"
  by code_simp

lemma shortest_digits_tie:
  "shortest_digits (114791 / 131072) (- 1) [Suc 0 ..< 18] = (8757858276367188, 16)"
  unfolding precisions by (simp add: digits_at_tie_short digits_at_tie_16)

lemma repr_float_tie: "repr_float (Finite True (114791 / 131072)) = ''-0.8757858276367188''"
  by (simp add: repr_float_def Let_def ilog10_tie shortest_digits_tie strip_zeros_def str_nat_eval
        del: upt_Suc)

lemma round_double_tie: "round_double True (114791 / 131072) = Finite True (114791 / 131072)"
  by (subst round_double_half_binade) (simp_all add: rhe_eval)

lemma py_float_tie: "py_float ''-0.87578582763671875'' = Some (Finite True (114791 / 131072))"
proof -
  have "py_float ''-0.87578582763671875'' = Some (round_double True (114791 / 131072))"
    by (rule py_float_decimal[where body="''0.87578582763671875''"]; code_simp)
  then show ?thesis by (simp only: round_double_tie)
qed

lemma strip_tie_line:
  "strip ''0 -0.87578582763671875 0.5 0.2 0.2'' = ''0 -0.87578582763671875 0.5 0.2 0.2''"
  by code_simp

lemma split_tie_line:
  "py_split ''0 -0.87578582763671875 0.5 0.2 0.2'' =
     [''0'', ''-0.87578582763671875'', ''0.5'', ''0.2'', ''0.2'']"
  by code_simp

lemma tie_line_finding:
  "validate_yolo_line ''0 -0.87578582763671875 0.5 0.2 0.2'' n f =
     Some \<lparr>filename = f, line_num = n, line_content = ''0 -0.87578582763671875 0.5 0.2 0.2'',
           reason = ''center_x must be in [0, 1], found: -0.8757858276367188''\<rparr>"
  by (simp add: validate_yolo_line_def Let_def strip_tie_line split_tie_line
        LabelValidationError_def example_eval py_float_tie repr_float_tie fval_def)

section \<open>The claims about the line validator\<close>

lemma validate_yolo_line_strip: "validate_yolo_line (strip l) n f = validate_yolo_line l n f"
  by (simp add: validate_yolo_line_def strip_idem)

lemma py_split_Nil: "py_split [] = []"
  by (simp add: py_split_def)

lemma is_finite_Finite: "is_finite x \<Longrightarrow> \<exists>s m. x = Finite s m"
  by (cases x) (auto simp: is_finite_def)

text \<open>
  The condition on the four edges can also be read over the exact real numbers that the
  parsed floats stand for. For floats that \<^verbatim>\<open>float(s)\<close> returns, with width and height
  greater than 0, that reading implies the one over binary64: rounding never moves an edge
  across 0 or 1, both being floats. So a line that is valid in the exact reading gets no
  finding either.
\<close>

lemma exact_edges_binary64:
  assumes "py_float t2 = Some center_x" and "py_float t3 = Some center_y"
    and "py_float t4 = Some width" and "py_float t5 = Some height"
    and "is_finite center_x" and "is_finite center_y" and "is_finite width" and "is_finite height"
    and "fl_gt width (fl_int 0)" and "fl_gt height (fl_int 0)"
    and "edges_in_unit_exact center_x center_y width height"
  shows "edges_in_unit_binary64 center_x center_y width height"
proof -
  obtain sx cx where x: "center_x = Finite sx cx" using is_finite_Finite[OF assms(5)] by blast
  obtain sy cy where y: "center_y = Finite sy cy" using is_finite_Finite[OF assms(6)] by blast
  obtain sw w where w: "width = Finite sw w" using is_finite_Finite[OF assms(7)] by blast
  obtain sh h where h: "height = Finite sh h" using is_finite_Finite[OF assms(8)] by blast
  have pw: "0 < fval sw w" using assms(9) by (simp add: w fl_gt_def fl_int_0 fval_def)
  have ph: "0 < fval sh h" using assms(10) by (simp add: h fl_gt_def fl_int_0 fval_def)
  have ex: "0 \<le> fval sx cx - fval sw w / 2" "fval sx cx + fval sw w / 2 \<le> 1"
           "0 \<le> fval sy cy - fval sh h / 2" "fval sy cy + fval sh h / 2 \<le> 1"
    using assms(11) by (simp_all add: edges_in_unit_exact_def x y w h)
  obtain hw where hw: "fl_truediv (Finite sw w) (fl_int 2) = Some hw"
      "in_unit (fl_sub (Finite sx cx) hw)" "in_unit (fl_add (Finite sx cx) hw)"
    using exact_edges_axis[OF assms(1)[unfolded x] assms(3)[unfolded w] pw ex(1,2)] by blast
  obtain hh where hh: "fl_truediv (Finite sh h) (fl_int 2) = Some hh"
      "in_unit (fl_sub (Finite sy cy) hh)" "in_unit (fl_add (Finite sy cy) hh)"
    using exact_edges_axis[OF assms(2)[unfolded y] assms(4)[unfolded h] ph ex(3,4)] by blast
  show ?thesis
    unfolding edges_in_unit_binary64_def x y w h using hw hh by simp
qed

lemma valid_line_exact_edges:
  assumes "py_split (strip line) = [t1, t2, t3, t4, t5]"
    and "py_int t1 = Some class_id" and "0 \<le> class_id"
    and "py_float t2 = Some center_x" and "py_float t3 = Some center_y"
    and "py_float t4 = Some width" and "py_float t5 = Some height"
    and "is_finite center_x" and "is_finite center_y" and "is_finite width" and "is_finite height"
    and "fl_gt width (fl_int 0)" and "fl_gt height (fl_int 0)"
    and "in_unit center_x" and "in_unit center_y"
    and "edges_in_unit_exact center_x center_y width height"
  shows "validate_yolo_line line n f = None"
proof -
  have b: "edges_in_unit_binary64 center_x center_y width height"
    by (rule exact_edges_binary64[OF assms(4-7) assms(8-11) assms(12,13) assms(16)])
  then obtain half_w half_h where hv: "fl_truediv width (fl_int 2) = Some half_w"
      "fl_truediv height (fl_int 2) = Some half_h"
      and iu: "in_unit (fl_sub center_x half_w)" "in_unit (fl_add center_x half_w)"
      "in_unit (fl_sub center_y half_h)" "in_unit (fl_add center_y half_h)"
    by (auto simp: edges_in_unit_binary64_def split: option.splits)
  define L where "L = strip line"
  have parts: "py_split L = [t1, t2, t3, t4, t5]" using assms(1) by (simp add: L_def)
  have nb: "strip line \<noteq> []" using assms(1) by (auto simp: py_split_Nil)
  note tk = token_5[OF parts]
  have co: "coord L (Suc 0) = Some center_x" "coord L 2 = Some center_y"
           "coord L 3 = Some width" "coord L 4 = Some height"
    by (simp_all add: coord_def tk assms)
  have sp: "\<not> special (Some center_x)" "\<not> special (Some center_y)"
           "\<not> special (Some width)" "\<not> special (Some height)"
    using assms(8-11) by (simp_all add: special_def is_finite_def)
  have ed: "edge_minus L (Suc 0) 3 = Some (fl_sub center_x half_w)"
           "edge_plus L (Suc 0) 3 = Some (fl_add center_x half_w)"
           "edge_minus L 2 4 = Some (fl_sub center_y half_h)"
           "edge_plus L 2 4 = Some (fl_add center_y half_h)"
    by (simp_all add: edge_minus_def edge_plus_def co hv)
  have "first_violation L = None"
    using assms(3,12-15) iu
    by (simp add: first_violation_def check_sequence_def parts tk co coords_def sp ed assms(2,4-7)
          in_unit_def)
  then show ?thesis using validate_yolo_line_sequence[OF nb, of n f] by (simp add: L_def)
qed



text \<open>
  Claim C2. On every line that is not blank the line validator returns at most one finding
  (its result is an optional finding), and that finding reports the first violated check
  of the fixed sequence: token count, class id, float parse, NaN or infinity, width,
  height, centre x, centre y, then the edges in the order x_min, x_max, y_min, y_max. The
  first violated check is the one before which no check of the sequence is violated, and
  the reason is the description of that check alone, so no later check has a part in the
  result. The description is not empty and belongs to no other check.
\<close>

theorem first_violated_check_reported:
  assumes "strip line \<noteq> []"
  shows "validate_yolo_line line n f =
           (case first_violation (strip line) of
              None \<Rightarrow> None
            | Some c \<Rightarrow> Some \<lparr>filename = f, line_num = n, line_content = strip line,
                               reason = describe c (strip line)\<rparr>) \<and>
         (first_violation (strip line) = None \<longleftrightarrow>
            (\<forall>c \<in> set check_sequence. \<not> violated c (strip line))) \<and>
         (\<forall>c. first_violation (strip line) = Some c \<longleftrightarrow>
            (\<exists>i < length check_sequence. check_sequence ! i = c \<and> violated c (strip line) \<and>
               (\<forall>j < i. \<not> violated (check_sequence ! j) (strip line)))) \<and>
         (\<forall>c. first_violation (strip line) = Some c \<longrightarrow>
            describe c (strip line) \<noteq> [] \<and>
            (\<forall>c' line'. describe c' line' = describe c (strip line) \<longrightarrow> c' = c))"
proof -
  have 1: "validate_yolo_line line n f =
           (case first_violation (strip line) of
              None \<Rightarrow> None
            | Some c \<Rightarrow> Some \<lparr>filename = f, line_num = n, line_content = strip line,
                               reason = describe c (strip line)\<rparr>)"
    by (rule validate_yolo_line_sequence[OF assms])
  have 2: "first_violation (strip line) = None \<longleftrightarrow>
            (\<forall>c \<in> set check_sequence. \<not> violated c (strip line))"
    by (auto simp add: first_violation_def find_None_iff)
  have 3: "first_violation (strip line) = Some c \<longleftrightarrow>
            (\<exists>i < length check_sequence. check_sequence ! i = c \<and> violated c (strip line) \<and>
               (\<forall>j < i. \<not> violated (check_sequence ! j) (strip line)))" for c
    unfolding first_violation_def find_Some_iff by blast
  have 4: "describe c (strip line) \<noteq> [] \<and>
            (\<forall>c' line'. describe c' line' = describe c (strip line) \<longrightarrow> c' = c)"
    if "first_violation (strip line) = Some c" for c
    using first_violation_describe_nonempty[OF that] describe_determines_check[of c "strip line"]
    by metis
  show ?thesis using 1 2 3 4 by blast
qed

lemma wide_box_tokens:
  "token ''0 0.5 0.5 1.2 0.2'' 0 = Some ''0''"
  "coord ''0 0.5 0.5 1.2 0.2'' (Suc 0) = Some (Finite False (1 / 2))"
  "coord ''0 0.5 0.5 1.2 0.2'' 2 = Some (Finite False (1 / 2))"
  "coord ''0 0.5 0.5 1.2 0.2'' 3 = Some (Finite False (5404319552844595 / 4503599627370496))"
  "coord ''0 0.5 0.5 1.2 0.2'' 4 = Some (Finite False (3602879701896397 / 18014398509481984))"
  by (simp_all add: coord_def token_5[OF split_wide_box] example_eval)

lemma wide_box_edges:
  "edge_minus ''0 0.5 0.5 1.2 0.2'' (Suc 0) 3 = Some (Finite True (900719925474099 / 9007199254740992))"
  "edge_plus ''0 0.5 0.5 1.2 0.2'' (Suc 0) 3 = Some (Finite False (2476979795053773 / 2251799813685248))"
  by (simp_all add: edge_minus_def edge_plus_def wide_box_tokens fl_truediv_2 example_eval)

lemma wide_box_first_violation: "first_violation ''0 0.5 0.5 1.2 0.2'' = Some X_min_edge"
  by (simp add: first_violation_def check_sequence_def split_wide_box wide_box_tokens wide_box_edges
        coords_def special_def in_unit_def example_eval)

theorem first_violated_check_reported_witness:
  "strip ''0 0.5 0.5 1.2 0.2'' \<noteq> [] \<and>
   first_violation (strip ''0 0.5 0.5 1.2 0.2'') = Some X_min_edge \<and>
   validate_yolo_line ''0 0.5 0.5 1.2 0.2'' 7 ''img_001.txt'' =
     Some \<lparr>filename = ''img_001.txt'', line_num = 7, line_content = ''0 0.5 0.5 1.2 0.2'',
           reason = describe X_min_edge ''0 0.5 0.5 1.2 0.2''\<rparr>"
proof -
  have nb: "strip ''0 0.5 0.5 1.2 0.2'' \<noteq> []" by (simp add: strip_wide_box)
  show ?thesis
    using first_violated_check_reported[OF nb, of 7 "''img_001.txt''"]
    by (simp add: strip_wide_box wide_box_first_violation del: describe.simps)
qed

text \<open>
  Claim C3, as the specification states it: for the line \<^verbatim>\<open>0 0.5 0.5 1.2 0.2\<close> the finding
  names the right edge, with \<^verbatim>\<open>x_max = 1.1\<close>. The code does not return that: the box of width
  1.2 around 0.5 leaves the image on both sides, and the left edge is checked first.
\<close>

theorem wide_box_right_edge_counterexample:
  "validate_yolo_line ''0 0.5 0.5 1.2 0.2'' 1 ''img_001.txt'' =
     Some \<lparr>filename = ''img_001.txt'', line_num = 1, line_content = ''0 0.5 0.5 1.2 0.2'',
           reason = ''Bounding box exceeds left edge: x_min=-0.100000 < 0''\<rparr> \<and>
   map_option reason (validate_yolo_line ''0 0.5 0.5 1.2 0.2'' 1 ''img_001.txt'') \<noteq>
     Some ''Bounding box exceeds right edge: x_max=1.100000 > 1''"
  by (simp add: wide_box_finding)

text \<open>
  Claim C3, amended. For the line \<^verbatim>\<open>0 0.5 0.5 1.2 0.2\<close>, at any line number and file name,
  the line validator returns a finding whose reason names the left edge below 0, with
  \<^verbatim>\<open>x_min = -0.1\<close>. The right edge check is violated as well, and its description would
  give \<^verbatim>\<open>x_max = 1.1\<close>, but the left edge is the first violated check.
\<close>

theorem wide_box_left_edge_reported:
  "validate_yolo_line ''0 0.5 0.5 1.2 0.2'' n f =
     Some \<lparr>filename = f, line_num = n, line_content = ''0 0.5 0.5 1.2 0.2'',
           reason = ''Bounding box exceeds left edge: x_min=-0.100000 < 0''\<rparr> \<and>
   first_violation ''0 0.5 0.5 1.2 0.2'' = Some X_min_edge \<and>
   violated X_max_edge ''0 0.5 0.5 1.2 0.2'' \<and>
   describe X_max_edge ''0 0.5 0.5 1.2 0.2'' = ''Bounding box exceeds right edge: x_max=1.100000 > 1''"
  by (simp add: wide_box_finding wide_box_first_violation wide_box_edges example_eval)

text \<open>
  Claim C10. The verdict of \<^verbatim>\<open>validate_yolo_line\<close> depends on the line text alone. For two
  calls on the same line with any line numbers and file names, either both return no
  finding, or both return a finding, with the same reason and the same offending text;
  the two findings differ only in the file name and the line number, which are the ones
  passed in.
\<close>

theorem verdict_independent_of_position:
  "(validate_yolo_line line n1 f1 = None \<and> validate_yolo_line line n2 f2 = None) \<or>
   (\<exists>e1 e2. validate_yolo_line line n1 f1 = Some e1 \<and> validate_yolo_line line n2 f2 = Some e2 \<and>
      reason e1 = reason e2 \<and> line_content e1 = line_content e2 \<and>
      filename e1 = f1 \<and> line_num e1 = n1 \<and> filename e2 = f2 \<and> line_num e2 = n2 \<and>
      e1 = e2\<lparr>filename := f1, line_num := n1\<rparr>)"
proof (cases "validate_yolo_line line n2 f2")
  case None
  then show ?thesis using validate_yolo_line_transfer[of line n1 f1 n2 f2] by simp
next
  case (Some e2)
  then have "validate_yolo_line line n1 f1 = Some (e2\<lparr>filename := f1, line_num := n1\<rparr>)"
    using validate_yolo_line_transfer[of line n1 f1 n2 f2] by simp
  then show ?thesis using Some validate_yolo_line_Some(2,3)[OF Some] by simp
qed

section \<open>The claims about the file validator\<close>

lemma one_token_finding:
  "validate_yolo_line ''abc'' 1 ''img_001.txt'' =
     Some \<lparr>filename = ''img_001.txt'', line_num = 1, line_content = ''abc'',
           reason = ''Expected exactly 5 values, found 1''\<rparr>"
  by code_simp

lemma readlines_abc: "readlines ''abc'' = [''abc'']"
  by code_simp

lemma strip_abc: "strip ''abc'' = ''abc''"
  by code_simp

text \<open>
  Claim C4. Every finding satisfies the invariant of the data model: when its line number
  is 0 its offending text is empty, and otherwise its line number is at least 1 and its
  offending text is not empty and is the original line with the whitespace at both ends
  removed. This holds for every finding that a scan collects, for every finding that
  \<^verbatim>\<open>validate_label_file\<close> returns (there the original line is the line of the file at that
  number), and for every finding that \<^verbatim>\<open>validate_yolo_line\<close> returns when it is given a line
  number other than 0, as it is for a position in a file, which is counted from 1.
\<close>

theorem findings_satisfy_invariant:
  "(\<forall>e \<in> set (all_errors (scan_dataset ds)). finding_invariant e) \<and>
   (\<forall>e \<in> set (validate_label_file path).
      finding_invariant e \<and>
      (line_num e \<noteq> 0 \<longrightarrow>
         (\<exists>text. opened path = Decoded text \<and> nat (line_num e) \<le> length (readlines text) \<and>
                 line_content e = strip (readlines text ! (nat (line_num e) - 1))))) \<and>
   (\<forall>e. lnum \<noteq> 0 \<longrightarrow> validate_yolo_line line lnum fname = Some e \<longrightarrow>
      line_num e = lnum \<and> line_content e = strip line \<and> line_content e \<noteq> [])"
proof -
  have fileP: "finding_invariant e \<and>
      (line_num e \<noteq> 0 \<longrightarrow>
         (\<exists>text. opened p = Decoded text \<and> nat (line_num e) \<le> length (readlines text) \<and>
                 line_content e = strip (readlines text ! (nat (line_num e) - 1))))"
    if "e \<in> set (validate_label_file p)" for e p
  proof (cases "opened p")
    case (Decoded tx)
    from that obtain i where i: "i < length (readlines tx)"
      "validate_yolo_line (readlines tx ! i) (1 + int i) (name p) = Some e"
      using in_validate_label_file_Decoded[OF Decoded] by blast
    note S = validate_yolo_line_Some[OF i(2)]
    have n: "nat (1 + int i) - 1 = i" "nat (1 + int i) \<le> length (readlines tx)"
      using i(1) by simp_all
    show ?thesis using S(1,3,4) Decoded n by (simp add: finding_invariant_def)
  next
    case UnicodeDecodeError
    then show ?thesis using that
      by (auto simp: validate_label_file_def LabelValidationError_def strip_Nil finding_invariant_def)
  next
    case (ReadException msg)
    then show ?thesis using that
      by (auto simp: validate_label_file_def LabelValidationError_def strip_Nil finding_invariant_def)
  qed
  have lineP: "line_num e = lnum \<and> line_content e = strip line \<and> line_content e \<noteq> []"
    if "validate_yolo_line line lnum fname = Some e" for e
    using validate_yolo_line_Some[OF that] by simp
  show ?thesis using fileP lineP by (auto simp: scan_dataset_all_errors)
qed

theorem findings_satisfy_invariant_witness:
  "validate_label_file \<lparr>name = ''img_001.txt'', opened = Decoded ''abc''\<rparr> =
     [\<lparr>filename = ''img_001.txt'', line_num = 1, line_content = ''abc'',
       reason = ''Expected exactly 5 values, found 1''\<rparr>] \<and>
   finding_invariant \<lparr>filename = ''img_001.txt'', line_num = 1, line_content = ''abc'',
       reason = ''Expected exactly 5 values, found 1''\<rparr> \<and>
   readlines ''abc'' ! (nat 1 - 1) = ''abc'' \<and> strip ''abc'' = ''abc'' \<and>
   validate_label_file \<lparr>name = ''bad.txt'', opened = UnicodeDecodeError\<rparr> =
     [\<lparr>filename = ''bad.txt'', line_num = 0, line_content = [],
       reason = ''File encoding error: not valid UTF-8''\<rparr>] \<and>
   finding_invariant \<lparr>filename = ''bad.txt'', line_num = 0, line_content = [],
       reason = ''File encoding error: not valid UTF-8''\<rparr>"
proof -
  have v1: "validate_label_file \<lparr>name = ''img_001.txt'', opened = Decoded ''abc''\<rparr> =
     [\<lparr>filename = ''img_001.txt'', line_num = 1, line_content = ''abc'',
       reason = ''Expected exactly 5 values, found 1''\<rparr>]"
    by (simp add: validate_label_file_def readlines_abc one_token_finding)
  have v2: "validate_label_file \<lparr>name = ''bad.txt'', opened = UnicodeDecodeError\<rparr> =
     [\<lparr>filename = ''bad.txt'', line_num = 0, line_content = [],
       reason = ''File encoding error: not valid UTF-8''\<rparr>]"
    by (simp add: validate_label_file_def LabelValidationError_def strip_Nil)
  show ?thesis
    using findings_satisfy_invariant
      [of "\<lparr>root_exists = True, labels_dir_str = (\<lambda>s. s), labels_dir_txt = (\<lambda>s. None)\<rparr>"
          "\<lparr>name = ''img_001.txt'', opened = Decoded ''abc''\<rparr>" 1 "''abc''" "''img_001.txt''"]
      findings_satisfy_invariant
      [of "\<lparr>root_exists = True, labels_dir_str = (\<lambda>s. s), labels_dir_txt = (\<lambda>s. None)\<rparr>"
          "\<lparr>name = ''bad.txt'', opened = UnicodeDecodeError\<rparr>" 1 "''abc''" "''img_001.txt''"]
    by (simp add: v1 v2 readlines_abc strip_abc)
qed

text \<open>
  Claim C6. For a file that cannot be decoded as UTF-8, or whose read fails for another
  reason, \<^verbatim>\<open>validate_label_file\<close> returns exactly one finding, with line number 0 and empty
  offending text; its reason is \<^verbatim>\<open>File encoding error: not valid UTF-8\<close> in the decoding
  case and the message of the error otherwise. No line of the file is validated, the
  file adds nothing to the line count, and the scan goes on with the files after it:
  their findings follow in the result and all files are counted.
\<close>

theorem unreadable_file_single_finding:
  assumes "opened path = UnicodeDecodeError \<or> opened path = ReadException msg"
  shows "(\<exists>r. validate_label_file path =
              [\<lparr>filename = name path, line_num = 0, line_content = [], reason = r\<rparr>] \<and>
            (opened path = UnicodeDecodeError \<longrightarrow> r = ''File encoding error: not valid UTF-8'') \<and>
            (opened path = ReadException msg \<longrightarrow> r = ''File read error: '' @ msg)) \<and>
         all_errors (scan_files (path # rest) st) =
           all_errors st @ validate_label_file path @ concat (map validate_label_file rest) \<and>
         total_files (scan_files (path # rest) st) = total_files st + 1 + int (length rest) \<and>
         total_lines (scan_files (path # rest) st) = total_lines (scan_files rest st)"
proof -
  have nb: "nonblank_lines path = 0" using assms by (auto simp: nonblank_lines_def)
  have 1: "\<exists>r. validate_label_file path =
              [\<lparr>filename = name path, line_num = 0, line_content = [], reason = r\<rparr>] \<and>
            (opened path = UnicodeDecodeError \<longrightarrow> r = ''File encoding error: not valid UTF-8'') \<and>
            (opened path = ReadException msg \<longrightarrow> r = ''File read error: '' @ msg)"
    using assms by (auto simp: validate_label_file_def LabelValidationError_def strip_Nil)
  have 2: "all_errors (scan_files (path # rest) st) =
           all_errors st @ validate_label_file path @ concat (map validate_label_file rest)"
    by (simp add: scan_files_all_errors del: scan_files.simps)
  have 3: "total_files (scan_files (path # rest) st) = total_files st + 1 + int (length rest)"
    by (simp add: scan_files_total_files del: scan_files.simps)
  have 4: "total_lines (scan_files (path # rest) st) = total_lines (scan_files rest st)"
    by (simp add: scan_files_total_lines nb del: scan_files.simps)
  show ?thesis using 1 2 3 4 by blast
qed

theorem unreadable_file_single_finding_witness:
  "opened \<lparr>name = ''bad.txt'', opened = UnicodeDecodeError\<rparr> = UnicodeDecodeError \<and>
   validate_label_file \<lparr>name = ''bad.txt'', opened = UnicodeDecodeError\<rparr> =
     [\<lparr>filename = ''bad.txt'', line_num = 0, line_content = [],
       reason = ''File encoding error: not valid UTF-8''\<rparr>] \<and>
   all_errors (scan_files
       [\<lparr>name = ''bad.txt'', opened = UnicodeDecodeError\<rparr>,
        \<lparr>name = ''img_001.txt'', opened = Decoded ''abc''\<rparr>]
       \<lparr>all_errors = [], total_files = 0, total_lines = 0, printed = []\<rparr>) =
     [\<lparr>filename = ''bad.txt'', line_num = 0, line_content = [],
       reason = ''File encoding error: not valid UTF-8''\<rparr>,
      \<lparr>filename = ''img_001.txt'', line_num = 1, line_content = ''abc'',
       reason = ''Expected exactly 5 values, found 1''\<rparr>] \<and>
   total_files (scan_files
       [\<lparr>name = ''bad.txt'', opened = UnicodeDecodeError\<rparr>,
        \<lparr>name = ''img_001.txt'', opened = Decoded ''abc''\<rparr>]
       \<lparr>all_errors = [], total_files = 0, total_lines = 0, printed = []\<rparr>) = 2"
proof -
  have v1: "validate_label_file \<lparr>name = ''img_001.txt'', opened = Decoded ''abc''\<rparr> =
     [\<lparr>filename = ''img_001.txt'', line_num = 1, line_content = ''abc'',
       reason = ''Expected exactly 5 values, found 1''\<rparr>]"
    by (simp add: validate_label_file_def readlines_abc one_token_finding)
  show ?thesis
    using unreadable_file_single_finding
      [of "\<lparr>name = ''bad.txt'', opened = UnicodeDecodeError\<rparr>" "[]"
          "[\<lparr>name = ''img_001.txt'', opened = Decoded ''abc''\<rparr>]"
          "\<lparr>all_errors = [], total_files = 0, total_lines = 0, printed = []\<rparr>"]
    by (simp add: v1 del: scan_files.simps)
qed

text \<open>
  Claim C7. A file of one blank line, then one valid line, then one invalid line yields
  exactly one finding, and its line number is 3. A blank or whitespace-only line gets no
  finding at any position, and the line number of every finding of a file is the position
  of its line in the file, counted from 1 and counting the blank lines.
\<close>

theorem blank_valid_invalid_file:
  assumes "opened path = Decoded text" and "readlines text = [b, v, i]"
    and "strip b = []"
    and "validate_yolo_line v k1 g1 = None"
    and "validate_yolo_line i k2 g2 \<noteq> None"
  shows "(\<exists>e. validate_label_file path = [e] \<and> line_num e = 3 \<and>
              validate_yolo_line i 3 (name path) = Some e) \<and>
         (\<forall>k g. validate_yolo_line b k g = None) \<and>
         (\<forall>e \<in> set (validate_label_file path).
            \<exists>j < length (readlines text). line_num e = 1 + int j \<and>
              validate_yolo_line (readlines text ! j) (1 + int j) (name path) = Some e)"
proof -
  have b: "validate_yolo_line b k g = None" for k g
    using assms(3) by (rule validate_yolo_line_blank)
  have v: "validate_yolo_line v 2 (name path) = None"
    using validate_yolo_line_transfer[of v 2 "name path" k1 g1] assms(4) by simp
  obtain e where e: "validate_yolo_line i 3 (name path) = Some e"
    using validate_yolo_line_transfer[of i 3 "name path" k2 g2] assms(5) by auto
  have "validate_label_file path = [e]"
    by (simp add: validate_label_file_def assms(1,2) b v e)
  moreover have "line_num e = 3" using validate_yolo_line_Some(3)[OF e] .
  moreover have "\<exists>j < length (readlines text). line_num x = 1 + int j \<and>
              validate_yolo_line (readlines text ! j) (1 + int j) (name path) = Some x"
    if "x \<in> set (validate_label_file path)" for x
  proof -
    from that obtain j where j: "j < length (readlines text)"
      "validate_yolo_line (readlines text ! j) (1 + int j) (name path) = Some x"
      using in_validate_label_file_Decoded[OF assms(1)] by blast
    then show ?thesis using validate_yolo_line_Some(3)[OF j(2)] by blast
  qed
  ultimately show ?thesis using b e by blast
qed

lemma readlines_three:
  "readlines (CHR 0x0A # ''0 0.5 0.5 0.2 0.2'' @ CHR 0x0A # ''0 0.5 0.5 1.2 0.2'' @ [CHR 0x0A]) =
     [[CHR 0x0A], ''0 0.5 0.5 0.2 0.2'' @ [CHR 0x0A], ''0 0.5 0.5 1.2 0.2'' @ [CHR 0x0A]]"
  by code_simp

lemma strip_newline: "strip [CHR 0x0A] = []"
  by code_simp

lemma strip_small_box_nl: "strip (''0 0.5 0.5 0.2 0.2'' @ [CHR 0x0A]) = ''0 0.5 0.5 0.2 0.2''"
  by code_simp

lemma strip_wide_box_nl: "strip (''0 0.5 0.5 1.2 0.2'' @ [CHR 0x0A]) = ''0 0.5 0.5 1.2 0.2''"
  by code_simp

theorem blank_valid_invalid_file_witness:
  "readlines (CHR 0x0A # ''0 0.5 0.5 0.2 0.2'' @ CHR 0x0A # ''0 0.5 0.5 1.2 0.2'' @ [CHR 0x0A]) =
     [[CHR 0x0A], ''0 0.5 0.5 0.2 0.2'' @ [CHR 0x0A], ''0 0.5 0.5 1.2 0.2'' @ [CHR 0x0A]] \<and>
   strip [CHR 0x0A] = [] \<and>
   validate_yolo_line (''0 0.5 0.5 0.2 0.2'' @ [CHR 0x0A]) 2 ''img_001.txt'' = None \<and>
   validate_yolo_line (''0 0.5 0.5 1.2 0.2'' @ [CHR 0x0A]) 3 ''img_001.txt'' \<noteq> None \<and>
   validate_label_file
     \<lparr>name = ''img_001.txt'',
      opened = Decoded (CHR 0x0A # ''0 0.5 0.5 0.2 0.2'' @ CHR 0x0A # ''0 0.5 0.5 1.2 0.2'' @ [CHR 0x0A])\<rparr> =
     [\<lparr>filename = ''img_001.txt'', line_num = 3, line_content = ''0 0.5 0.5 1.2 0.2'',
       reason = ''Bounding box exceeds left edge: x_min=-0.100000 < 0''\<rparr>]"
proof -
  let ?text = "CHR 0x0A # ''0 0.5 0.5 0.2 0.2'' @ CHR 0x0A # ''0 0.5 0.5 1.2 0.2'' @ [CHR 0x0A]"
  let ?path = "\<lparr>name = ''img_001.txt'', opened = Decoded ?text\<rparr>"
  have v: "validate_yolo_line (''0 0.5 0.5 0.2 0.2'' @ [CHR 0x0A]) 2 ''img_001.txt'' = None"
    using validate_yolo_line_strip[of "''0 0.5 0.5 0.2 0.2'' @ [CHR 0x0A]" 2 "''img_001.txt''"]
    by (simp only: strip_small_box_nl small_box_valid)
  have i: "validate_yolo_line (''0 0.5 0.5 1.2 0.2'' @ [CHR 0x0A]) 3 ''img_001.txt'' =
     Some \<lparr>filename = ''img_001.txt'', line_num = 3, line_content = ''0 0.5 0.5 1.2 0.2'',
       reason = ''Bounding box exceeds left edge: x_min=-0.100000 < 0''\<rparr>"
    using validate_yolo_line_strip[of "''0 0.5 0.5 1.2 0.2'' @ [CHR 0x0A]" 3 "''img_001.txt''"]
    by (simp only: strip_wide_box_nl wide_box_finding)
  have i': "validate_yolo_line (''0 0.5 0.5 1.2 0.2'' @ [CHR 0x0A]) 3 ''img_001.txt'' \<noteq> None"
    by (simp only: i) simp
  have o: "opened ?path = Decoded ?text" by simp
  from blank_valid_invalid_file[OF o readlines_three strip_newline v i']
  obtain e where "validate_label_file ?path = [e]"
    "validate_yolo_line (''0 0.5 0.5 1.2 0.2'' @ [CHR 0x0A]) 3 (name ?path) = Some e"
    by blast
  then have "validate_label_file ?path =
     [\<lparr>filename = ''img_001.txt'', line_num = 3, line_content = ''0 0.5 0.5 1.2 0.2'',
       reason = ''Bounding box exceeds left edge: x_min=-0.100000 < 0''\<rparr>]"
    using i by simp
  then show ?thesis using readlines_three strip_newline v i' by blast
qed

section \<open>The claims about the scanner\<close>

text \<open>
  Claim C5. The process exits with code 0 exactly when the dataset root exists and the
  scan produced no finding, and with code 1 exactly when the root is missing or the scan
  produced at least one finding.
\<close>

theorem exit_code:
  "(main ds = 0 \<longleftrightarrow> root_exists ds \<and> all_errors (scan_dataset ds) = []) \<and>
   (main ds = 1 \<longleftrightarrow> \<not> root_exists ds \<or> all_errors (scan_dataset ds) \<noteq> [])"
  by (simp add: main_def Let_def)

theorem exit_code_witness:
  "main \<lparr>root_exists = True, labels_dir_str = (\<lambda>s. s), labels_dir_txt = (\<lambda>s. None)\<rparr> = 0 \<and>
   main \<lparr>root_exists = False, labels_dir_str = (\<lambda>s. s), labels_dir_txt = (\<lambda>s. None)\<rparr> = 1"
  using exit_code [of "\<lparr>root_exists = True, labels_dir_str = (\<lambda>s. s), labels_dir_txt = (\<lambda>s. None)\<rparr>"]
    exit_code [of "\<lparr>root_exists = False, labels_dir_str = (\<lambda>s. s), labels_dir_txt = (\<lambda>s. None)\<rparr>"]
  by (simp add: scan_dataset_def scan_split_def)

text \<open>
  Claim C8. When the dataset root exists and neither \<^verbatim>\<open>labels/train\<close> nor \<^verbatim>\<open>labels/val\<close>
  does, the scan ends with no file scanned, no line counted and no finding, and the exit
  code is 0. Each missing directory only prints its warning: it leaves the findings and
  both counters of the scan as they were.
\<close>

theorem no_partition_directories:
  assumes "root_exists ds" "labels_dir_txt ds ''train'' = None" "labels_dir_txt ds ''val'' = None"
  shows "total_files (scan_dataset ds) = 0 \<and> total_lines (scan_dataset ds) = 0 \<and>
         all_errors (scan_dataset ds) = [] \<and> main ds = 0 \<and>
         printed (scan_dataset ds) =
           [''WARNING: Directory not found: '' @ labels_dir_str ds ''train'',
            ''WARNING: Directory not found: '' @ labels_dir_str ds ''val''] \<and>
         (\<forall>st. scan_split ds ''train'' st =
            st\<lparr>printed := printed st @ [''WARNING: Directory not found: '' @ labels_dir_str ds ''train'']\<rparr>) \<and>
         (\<forall>st. scan_split ds ''val'' st =
            st\<lparr>printed := printed st @ [''WARNING: Directory not found: '' @ labels_dir_str ds ''val'']\<rparr>)"
  using assms by (simp add: scan_dataset_def scan_split_def main_def)

theorem no_partition_directories_witness:
  "root_exists \<lparr>root_exists = True, labels_dir_str = (\<lambda>s. ''v1/labels/'' @ s), labels_dir_txt = (\<lambda>s. None)\<rparr> \<and>
   total_files (scan_dataset \<lparr>root_exists = True, labels_dir_str = (\<lambda>s. ''v1/labels/'' @ s), labels_dir_txt = (\<lambda>s. None)\<rparr>) = 0 \<and>
   total_lines (scan_dataset \<lparr>root_exists = True, labels_dir_str = (\<lambda>s. ''v1/labels/'' @ s), labels_dir_txt = (\<lambda>s. None)\<rparr>) = 0 \<and>
   all_errors (scan_dataset \<lparr>root_exists = True, labels_dir_str = (\<lambda>s. ''v1/labels/'' @ s), labels_dir_txt = (\<lambda>s. None)\<rparr>) = [] \<and>
   main \<lparr>root_exists = True, labels_dir_str = (\<lambda>s. ''v1/labels/'' @ s), labels_dir_txt = (\<lambda>s. None)\<rparr> = 0 \<and>
   printed (scan_dataset \<lparr>root_exists = True, labels_dir_str = (\<lambda>s. ''v1/labels/'' @ s), labels_dir_txt = (\<lambda>s. None)\<rparr>) =
     [''WARNING: Directory not found: v1/labels/train'', ''WARNING: Directory not found: v1/labels/val'']"
  using no_partition_directories
    [of "\<lparr>root_exists = True, labels_dir_str = (\<lambda>s. ''v1/labels/'' @ s), labels_dir_txt = (\<lambda>s. None)\<rparr>"]
  by simp

text \<open>
  Claim C9. The line-count statistic of the scan is the sum, over the files the scan
  visits, of the number of non-blank lines of each file that is read successfully; a file
  whose read or decoding fails adds nothing. The count of a file is taken from its lines
  alone, whether the line validator accepts them or not.
\<close>

theorem line_count_statistic:
  "total_lines (scan_dataset ds) = sum_list (map nonblank_lines (scanned_files ds))"
  by (rule scan_dataset_total_lines)

end
